theory Spec2Isabelle
  imports Main "HOL-Library.Sublist"
begin

text \<open>
  The coupon clipper's background orchestrator, embedded from \<^verbatim>\<open>src/content.ts\<close> (the
  content script's \<^verbatim>\<open>clipOffer\<close> and the background script) and \<^verbatim>\<open>src/types.ts\<close>:
  the classification of the provider's answers, the batch loop with its stop flag, the
  merge into the stored collections, the session history and the startup sweep.
  Asynchronous code is modelled by what one handler does between the points where it
  suspends, and everything outside the script (the tab, the clock, the messages that
  arrive meanwhile) is a parameter.
\<close>

section \<open>Strings and JavaScript truthiness\<close>

text \<open>
  \<^verbatim>\<open>String.prototype.includes\<close> is a case-sensitive search for a contiguous run of
  code units. Every pattern of the program is ASCII, so searching the byte string gives
  the same answer as searching the UTF-16 string.
\<close>

fun startsWith :: "string \<Rightarrow> string \<Rightarrow> bool" where
  "startsWith s [] = True"
| "startsWith [] (p # ps) = False"
| "startsWith (c # cs) (p # ps) = (c = p \<and> startsWith cs ps)"

fun includesStr :: "string \<Rightarrow> string \<Rightarrow> bool" where
  "includesStr [] p = (p = [])"
| "includesStr (c # cs) p = (startsWith (c # cs) p \<or> includesStr cs p)"

text \<open>\<^verbatim>\<open>msg?.includes(p)\<close>: an absent message matches nothing.\<close>

fun optIncludes :: "string option \<Rightarrow> string \<Rightarrow> bool" where
  "optIncludes None p = False"
| "optIncludes (Some m) p = includesStr m p"

text \<open>A string is truthy when it is not empty; an absent one is falsy.\<close>

fun truthy :: "string option \<Rightarrow> bool" where
  "truthy None = False"
| "truthy (Some s) = (s \<noteq> [])"

text \<open>\<^verbatim>\<open>a || b\<close> on an optional string and a default.\<close>

fun orElse :: "string option \<Rightarrow> string \<Rightarrow> string" where
  "orElse None d = d"
| "orElse (Some s) d = (if s = [] then d else s)"

text \<open>Decimal rendering of a number, as a template literal or \<^verbatim>\<open>toString()\<close> gives it.\<close>

fun digits :: "nat \<Rightarrow> string" where
  "digits n = (if n < 10 then [char_of (48 + n)] else digits (n div 10) @ [char_of (48 + n mod 10)])"

declare digits.simps [simp del]

definition toString :: "int \<Rightarrow> string" where
  "toString i = (if i < 0 then CHR ''-'' # digits (nat (- i)) else digits (nat i))"


section \<open>Data model (types.ts)\<close>

text \<open>The \<^verbatim>\<open>SkipReason\<close> enum: string constants.\<close>

definition EXPIRED_OR_INACTIVE :: string where "EXPIRED_OR_INACTIVE = ''expired_or_inactive''"
definition NOT_AVAILABLE_IN_STORE :: string where "NOT_AVAILABLE_IN_STORE = ''not_available_in_store''"
definition NOT_ELIGIBLE :: string where "NOT_ELIGIBLE = ''not_eligible''"
definition DISPLAY_PERIOD_ENDED :: string where "DISPLAY_PERIOD_ENDED = ''display_period_ended''"
definition LIMIT_EXCEEDED :: string where "LIMIT_EXCEEDED = ''limit_exceeded''"
definition UNKNOWN :: string where "UNKNOWN = ''unknown''"
definition UNKNOWN_WITH_CLIPID :: string where "UNKNOWN_WITH_CLIPID = ''unknown_with_clipid''"
definition UNEXPECTED_RESPONSE :: string where "UNEXPECTED_RESPONSE = ''unexpected_response''"
definition CANNOT_CLIP :: string where "CANNOT_CLIP = ''cannot_clip''"

lemmas SkipReason_defs =
  EXPIRED_OR_INACTIVE_def NOT_AVAILABLE_IN_STORE_def NOT_ELIGIBLE_def DISPLAY_PERIOD_ENDED_def
  LIMIT_EXCEEDED_def UNKNOWN_def UNKNOWN_WITH_CLIPID_def UNEXPECTED_RESPONSE_def CANNOT_CLIP_def

text \<open>
  The provider's record of an offer (\<^verbatim>\<open>originalOffer\<close>), as far as the program reads it.
  An absent field is the empty string: both are falsy.
\<close>

record RawOffer =
  raw_status :: string
  raw_clipId :: string
  raw_clipTs :: string

text \<open>
  \<^verbatim>\<open>CouponOffer\<close>. The fields the clipping code reads are kept one by one; the display
  fields (brand, prices, images, dates, descriptions, ...), which the code only copies,
  are one association list.
\<close>

record CouponOffer =
  id' :: string
  title :: string
  program :: string
  status :: string
  clipId :: string
  clipTs :: string
  originalOffer :: "RawOffer option"
  display :: "(string \<times> string) list"

record ClippedCoupon = CouponOffer +
  clippedDate :: string

record SkippedCoupon = CouponOffer +
  skippedDate :: string
  skipReason :: string
  skipMessage :: string

text \<open>
  What the content script answers to a \<^verbatim>\<open>clipOffer\<close> message (the fields
  \<^verbatim>\<open>handleClipOffer\<close> forwards). The optional booleans are read for truthiness only,
  so an absent one is \<open>False\<close>.
\<close>

record MessageResponse =
  success :: bool
  wasAlreadyClipped :: bool
  wasSkipped :: bool
  reason :: "string option"
  errorMsg :: "string option"
  error :: "string option"

text \<open>\<^verbatim>\<open>ClipOfferResponse\<close>: the same with the provider's clip id and time.\<close>

record ClipOfferResponse = MessageResponse +
  resp_clipId :: "string option"
  resp_clipTs :: "string option"

text \<open>One entry of \<^verbatim>\<open>result.items\<close> in the provider's answer to a clip request.\<close>

record ClipItem =
  item_status :: int
  item_clipId :: "string option"
  item_errorMsg :: "string option"


section \<open>The content script: clipOffer\<close>

definition response :: "bool \<Rightarrow> ClipOfferResponse" where
  "response ok = \<lparr> success = ok, wasAlreadyClipped = False, wasSkipped = False, reason = None,
     errorMsg = None, error = None, resp_clipId = None, resp_clipTs = None \<rparr>"

definition respClipped :: ClipOfferResponse where
  "respClipped = response True"

definition respAlreadyClipped :: ClipOfferResponse where
  "respAlreadyClipped = (response True) \<lparr> wasAlreadyClipped := True \<rparr>"

definition respSkipped :: "string \<Rightarrow> string option \<Rightarrow> ClipOfferResponse" where
  "respSkipped r m = (response True) \<lparr> wasSkipped := True, reason := Some r, errorMsg := m \<rparr>"

definition respFailed :: "string \<Rightarrow> ClipOfferResponse" where
  "respFailed e = (response False) \<lparr> error := Some e \<rparr>"

definition isOfferAlreadyClipped :: "CouponOffer \<Rightarrow> bool" where
  "isOfferAlreadyClipped offer =
     (case originalOffer offer of
        Some r \<Rightarrow> raw_status r = ''C'' \<and> raw_clipId r \<noteq> [] \<and> raw_clipTs r \<noteq> []
      | None \<Rightarrow> status offer = ''C'' \<and> clipId offer \<noteq> [] \<and> clipTs offer \<noteq> [])"

text \<open>
  The classification of the first item of the provider's answer: the chain of
  \<^verbatim>\<open>if ... else if\<close> of \<^verbatim>\<open>clipOffer\<close>, in the source's order.
\<close>

definition skipReasonNoClipId :: "string option \<Rightarrow> string" where
  "skipReasonNoClipId m =
     (if optIncludes m ''region'' \<or> optIncludes m ''store'' then NOT_AVAILABLE_IN_STORE
      else if optIncludes m ''limit'' \<or> optIncludes m ''maximum'' then LIMIT_EXCEEDED
      else if optIncludes m ''qualify'' \<or> optIncludes m ''eligible'' then NOT_ELIGIBLE
      else if optIncludes m ''display'' \<or> optIncludes m ''promotional period'' then DISPLAY_PERIOD_ENDED
      else CANNOT_CLIP)"

definition classifyItem :: "ClipItem \<Rightarrow> ClipOfferResponse" where
  "classifyItem item =
     (let m = item_errorMsg item in
      if item_status item = 1 \<and> truthy (item_clipId item) then respClipped
      else if item_status item = 0 \<and> truthy (item_clipId item) \<and> optIncludes m ''already clipped''
        then respAlreadyClipped
      else if optIncludes m ''not yet active'' \<or> optIncludes m ''past expiry'' \<or> optIncludes m ''shutoff date''
        then respSkipped EXPIRED_OR_INACTIVE m
      else if item_status item = 0 \<and> \<not> truthy (item_clipId item)
        then respSkipped (skipReasonNoClipId m) m
      else if item_status item = 0 \<and> truthy (item_clipId item)
        then (if optIncludes m ''already clipped'' then respAlreadyClipped
              else respSkipped UNKNOWN_WITH_CLIPID (Some (orElse m ''Has clipId but status 0'')))
      else respSkipped UNEXPECTED_RESPONSE (Some (orElse m ''No error message'')))"

text \<open>
  The answers \<^verbatim>\<open>clipOffer\<close> builds: \<^verbatim>\<open>{success: true, wasAlreadyClipped: false}\<close>,
  \<^verbatim>\<open>{success: true, wasAlreadyClipped: true}\<close>,
  \<^verbatim>\<open>{success: true, wasSkipped: true, reason, errorMsg}\<close> and \<^verbatim>\<open>{success: false, error}\<close>
  are \<open>respClipped\<close>, \<open>respAlreadyClipped\<close>, \<open>respSkipped\<close> and \<open>respFailed\<close>.

  What the request to the provider came to: \<^verbatim>\<open>fetch\<close> or \<^verbatim>\<open>response.json()\<close> threw
  (with the message of the \<^verbatim>\<open>Error\<close>, if it was one), the HTTP status was not a
  success, or a body arrived, with its \<^verbatim>\<open>items\<close> when it has them.
\<close>

datatype fetch_outcome =
  Threw "string option"
| HttpStatus nat
| Body "ClipItem list option"

definition clipOffer :: "'auth option \<Rightarrow> CouponOffer \<Rightarrow> fetch_outcome \<Rightarrow> ClipOfferResponse" where
  "clipOffer authInfo offer outcome =
     (if isOfferAlreadyClipped offer then
        respAlreadyClipped \<lparr>
          resp_clipId := Some (case originalOffer offer of
                                 Some r \<Rightarrow> if raw_clipId r = [] then clipId offer else raw_clipId r
                               | None \<Rightarrow> clipId offer),
          resp_clipTs := Some (case originalOffer offer of
                                 Some r \<Rightarrow> if raw_clipTs r = [] then clipTs offer else raw_clipTs r
                               | None \<Rightarrow> clipTs offer) \<rparr>
      else case authInfo of
        None \<Rightarrow> respFailed ''No authentication''
      | Some a \<Rightarrow>
         (case outcome of
            Threw e \<Rightarrow> respFailed (case e of Some msg \<Rightarrow> msg | None \<Rightarrow> ''Unknown error'')
          | HttpStatus n \<Rightarrow> respFailed (''HTTP '' @ digits n)
          | Body None \<Rightarrow> respFailed ''No items in response''
          | Body (Some []) \<Rightarrow> respFailed ''No items in response''
          | Body (Some (item # rest)) \<Rightarrow> classifyItem item))"

text \<open>\<^verbatim>\<open>handleClipOffer\<close> forwards the fields of the answer that the message carries.\<close>

definition handleClipOffer :: "'auth option \<Rightarrow> CouponOffer \<Rightarrow> fetch_outcome \<Rightarrow> MessageResponse" where
  "handleClipOffer authInfo offer outcome = MessageResponse.truncate (clipOffer authInfo offer outcome)"


section \<open>The background script: state and storage\<close>

record ClippingStats =
  total :: nat
  processed :: nat
  clipped :: "nat option"
  alreadyClipped :: "nat option"
  skipped :: "nat option"
  failed :: "nat option"

record ClippingState =
  isActive :: bool
  currentStats :: ClippingStats
  startTime :: "int option"
  lastActivity :: "int option"

record ClippingSession =
  sessionId :: string
  date :: string
  stats :: ClippingStats
  duration :: int

text \<open>
  The keys of \<^verbatim>\<open>chrome.storage.local\<close> that the background script reads or writes; a key
  that was never set is \<open>None\<close>.
\<close>

record Storage =
  clippedCoupons :: "ClippedCoupon list option"
  skippedCoupons :: "SkippedCoupon list option"
  clippingSessions :: "ClippingSession list option"
  lastClippingSession :: "ClippingSession option"
  clippingStats :: "ClippingStats option"
  storedClippingState :: "ClippingState option"
  lastClippingStart :: "string option"

text \<open>
  The background process: the module variable \<^verbatim>\<open>clippingState\<close> and the storage. The
  badge is an output sink that nothing reads back; it is not part of the model, and storage
  calls are taken to succeed.
\<close>

record World =
  clippingState :: ClippingState
  storage :: Storage

text \<open>The \<^verbatim>\<open>CONFIG\<close> of the background script.\<close>

definition BATCH_SIZE :: nat where "BATCH_SIZE = 5"
definition MAX_SESSIONS :: nat where "MAX_SESSIONS = 50"
definition DATA_RETENTION_DAYS :: int where "DATA_RETENTION_DAYS = 90"
definition MAX_SESSION_HISTORY :: nat where "MAX_SESSION_HISTORY = 100"

text \<open>The initial value of \<^verbatim>\<open>clippingState\<close>, and an empty storage.\<close>

definition initialState :: ClippingState where
  "initialState = \<lparr> isActive = False,
     currentStats = \<lparr> total = 0, processed = 0, clipped = None, alreadyClipped = None,
       skipped = None, failed = None \<rparr>,
     startTime = None, lastActivity = None \<rparr>"

definition emptyStorage :: Storage where
  "emptyStorage = \<lparr> clippedCoupons = None, skippedCoupons = None, clippingSessions = None,
     lastClippingSession = None, clippingStats = None, storedClippingState = None,
     lastClippingStart = None \<rparr>"

definition initialWorld :: World where
  "initialWorld = \<lparr> clippingState = initialState, storage = emptyStorage \<rparr>"

text \<open>
  What \<^verbatim>\<open>chrome.tabs.sendMessage\<close> comes to for one offer: the content script's answer, or
  an exception (a rejected promise, or the \<^verbatim>\<open>TypeError\<close> of reading a field of an answer
  that is \<^verbatim>\<open>undefined\<close>) with its message when it is an \<^verbatim>\<open>Error\<close>.
\<close>

datatype tab_reply =
  Replied MessageResponse
| Rejected "string option"

text \<open>A \<^verbatim>\<open>stopClipping\<close> message carries the popup's \<^verbatim>\<open>finalStats\<close>, or none.\<close>

type_synonym stop_message = "ClippingStats option"

text \<open>
  Everything outside the background script. The run suspends inside every batch (the
  answers of the tab, the storage calls, the delay); \<open>stopMessage env i\<close> is the stop
  message that arrives while the batch that starts at index \<open>i\<close> is in flight, and
  \<open>dateNow env i\<close> the clock (milliseconds) during that batch: the records of one batch
  are built in one synchronous stretch, and its clock readings are taken as one.
  \<open>dateNow env (length offers)\<close> is the clock when the run ends. \<open>toISOString\<close> and
  \<open>dateParse\<close> are the built-in \<^verbatim>\<open>Date\<close> conversions; \<open>dateParse\<close> gives \<open>None\<close> for an
  invalid date.
\<close>

record Env =
  tabsSendMessage :: "CouponOffer \<Rightarrow> tab_reply"
  dateNow :: "nat \<Rightarrow> int"
  toISOString :: "int \<Rightarrow> string"
  dateParse :: "string \<Rightarrow> int option"
  stopMessage :: "nat \<Rightarrow> stop_message option"


section \<open>Session history\<close>

text \<open>\<^verbatim>\<open>data.key || []\<close>: a stored list, or the empty list when the key was never set.\<close>

fun orEmpty :: "'a list option \<Rightarrow> 'a list" where
  "orEmpty None = []"
| "orEmpty (Some xs) = xs"

text \<open>\<^verbatim>\<open>sessions.splice(0, sessions.length - MAX_SESSIONS)\<close> when the list is too long.\<close>

definition keepRecent :: "ClippingSession list \<Rightarrow> ClippingSession list" where
  "keepRecent sessions =
     (if length sessions > MAX_SESSIONS then drop (length sessions - MAX_SESSIONS) sessions
      else sessions)"

definition newSession :: "Env \<Rightarrow> int \<Rightarrow> ClippingState \<Rightarrow> ClippingStats \<Rightarrow> ClippingSession" where
  "newSession env now st s =
     \<lparr> sessionId = toString now, date = toISOString env now, stats = s,
       duration = (case startTime st of
                     None \<Rightarrow> 0
                   | Some t \<Rightarrow> if t = 0 then 0 else now - t) \<rparr>"

definition saveClippingSession :: "Env \<Rightarrow> int \<Rightarrow> ClippingStats \<Rightarrow> World \<Rightarrow> World" where
  "saveClippingSession env now s w =
     (let session = newSession env now (clippingState w) s;
          sessions = orEmpty (clippingSessions (storage w))
      in w \<lparr> storage := (storage w) \<lparr> clippingSessions := Some (keepRecent (sessions @ [session])),
                                       lastClippingSession := Some session \<rparr> \<rparr>)"

definition handleStopClipping :: "Env \<Rightarrow> int \<Rightarrow> stop_message \<Rightarrow> World \<Rightarrow> World" where
  "handleStopClipping env now finalStats w =
     (let wasActive = isActive (clippingState w);
          w1 = w \<lparr> clippingState := (clippingState w) \<lparr> isActive := False, lastActivity := Some now \<rparr> \<rparr>;
          w2 = (case finalStats of
                  None \<Rightarrow> w1
                | Some s \<Rightarrow> if wasActive then saveClippingSession env now s w1 else w1)
      in w2 \<lparr> storage := (storage w2) \<lparr> storedClippingState := Some (clippingState w2) \<rparr> \<rparr>)"


section \<open>The batch scheduler: processOffersInBackground\<close>

record OfferResult = MessageResponse +
  offer :: CouponOffer

text \<open>\<^verbatim>\<open>!finalReason\<close>: the reason is absent or empty.\<close>

fun falsy :: "string option \<Rightarrow> bool" where
  "falsy None = True"
| "falsy (Some s) = (s = [])"

text \<open>\<^verbatim>\<open>response.error?.match(/(not yet active|past expiry|shutoff date)/)\<close>\<close>

definition matchesExpired :: "string option \<Rightarrow> bool" where
  "matchesExpired e =
     (optIncludes e ''not yet active'' \<or> optIncludes e ''past expiry'' \<or> optIncludes e ''shutoff date'')"

text \<open>The callback of \<^verbatim>\<open>batch.map\<close>: one offer and the tab's answer give one result.\<close>

definition offerResult :: "CouponOffer \<Rightarrow> tab_reply \<Rightarrow> OfferResult" where
  "offerResult off rep =
     (case rep of
        Rejected e \<Rightarrow>
          \<lparr> success = False, wasAlreadyClipped = False, wasSkipped = False, reason = None,
            errorMsg = None, error = Some (case e of Some msg \<Rightarrow> msg | None \<Rightarrow> ''Unknown error''),
            offer = off \<rparr>
      | Replied r \<Rightarrow>
         (let finalReason = (if wasSkipped r \<and> (falsy (reason r) \<or> reason r = Some UNKNOWN)
                             then Some EXPIRED_OR_INACTIVE else reason r);
              missed = (\<not> wasSkipped r \<and> \<not> success r \<and> matchesExpired (error r))
          in \<lparr> success = (if missed then True else success r),
               wasAlreadyClipped = wasAlreadyClipped r,
               wasSkipped = (if missed then True else wasSkipped r),
               reason = (if missed then Some EXPIRED_OR_INACTIVE else finalReason),
               errorMsg = errorMsg r, error = error r, offer = off \<rparr>))"

definition isPermanent :: "string \<Rightarrow> bool" where
  "isPermanent reasonText =
     (reasonText = EXPIRED_OR_INACTIVE \<or> reasonText = NOT_AVAILABLE_IN_STORE \<or>
      reasonText = NOT_ELIGIBLE \<or> reasonText = DISPLAY_PERIOD_ENDED \<or>
      reasonText = LIMIT_EXCEEDED)"

text \<open>\<^verbatim>\<open>{...offer, skippedDate, skipReason, skipMessage, status: 'skipped'}\<close>\<close>

definition toSkippedCoupon :: "string \<Rightarrow> string \<Rightarrow> string \<Rightarrow> CouponOffer \<Rightarrow> SkippedCoupon" where
  "toSkippedCoupon isoNow reasonText msg off =
     CouponOffer.extend (off \<lparr> status := ''skipped'' \<rparr>)
       (SkippedCoupon.fields isoNow reasonText msg)"

text \<open>\<^verbatim>\<open>{...offer, clippedDate, status: 'clipped'}\<close>\<close>

definition toClippedCoupon :: "string \<Rightarrow> CouponOffer \<Rightarrow> ClippedCoupon" where
  "toClippedCoupon isoNow off =
     CouponOffer.extend (off \<lparr> status := ''clipped'' \<rparr>) (ClippedCoupon.fields isoNow)"

text \<open>
  The loop over \<^verbatim>\<open>batchResults\<close>. The accumulator is \<^verbatim>\<open>newClippedCoupons\<close>,
  \<^verbatim>\<open>newSkippedCoupons\<close> and the stats; \<^verbatim>\<open>push\<close> appends.
\<close>

fun settle :: "string \<Rightarrow> OfferResult list \<Rightarrow>
    CouponOffer list \<times> SkippedCoupon list \<times> ClippingStats \<Rightarrow>
    CouponOffer list \<times> SkippedCoupon list \<times> ClippingStats" where
  "settle isoNow [] acc = acc"
| "settle isoNow (r # rs) (newClipped, newSkipped, s) =
     (let s' = s \<lparr> processed := processed s + 1 \<rparr> in
      if success r then
        if wasAlreadyClipped r \<or> \<not> wasSkipped r then
          settle isoNow rs (newClipped @ [offer r], newSkipped, s')
        else if wasSkipped r then
          (let reasonText = orElse (reason r) UNKNOWN in
           if isPermanent reasonText then
             settle isoNow rs (newClipped,
               newSkipped @ [toSkippedCoupon isoNow reasonText
                               (orElse (errorMsg r) ''No specific message'') (offer r)], s')
           else settle isoNow rs (newClipped, newSkipped, s'))
        else settle isoNow rs (newClipped, newSkipped, s')
      else settle isoNow rs (newClipped, newSkipped, s'))"

text \<open>The two merge loops: a record is pushed when no stored record has its id.\<close>

fun mergeClipped :: "string \<Rightarrow> ClippedCoupon list \<Rightarrow> CouponOffer list \<Rightarrow> ClippedCoupon list" where
  "mergeClipped isoNow existing [] = existing"
| "mergeClipped isoNow existing (off # offs) =
     (case find (\<lambda>c. id' c = id' off) existing of
        Some c \<Rightarrow> mergeClipped isoNow existing offs
      | None \<Rightarrow> mergeClipped isoNow (existing @ [toClippedCoupon isoNow off]) offs)"

fun mergeSkipped :: "SkippedCoupon list \<Rightarrow> SkippedCoupon list \<Rightarrow> SkippedCoupon list" where
  "mergeSkipped existing [] = existing"
| "mergeSkipped existing (sc # scs) =
     (case find (\<lambda>c. id' c = id' sc) existing of
        Some c \<Rightarrow> mergeSkipped existing scs
      | None \<Rightarrow> mergeSkipped (existing @ [sc]) scs)"

definition updateStoredCoupons :: "string \<Rightarrow> CouponOffer list \<Rightarrow> SkippedCoupon list \<Rightarrow> Storage \<Rightarrow> Storage" where
  "updateStoredCoupons isoNow newClipped newSkipped st =
     (if length newClipped > 0 \<or> length newSkipped > 0 then
        st \<lparr> clippedCoupons :=
               Some (mergeClipped isoNow (orEmpty (clippedCoupons st)) newClipped),
             skippedCoupons :=
               Some (mergeSkipped (orEmpty (skippedCoupons st)) newSkipped) \<rparr>
      else st)"

text \<open>\<^verbatim>\<open>offers.slice(a, b)\<close> for \<open>0 \<le> a\<close> and \<open>0 \<le> b\<close>.\<close>

definition slice :: "'a list \<Rightarrow> nat \<Rightarrow> nat \<Rightarrow> 'a list" where
  "slice xs a b = take (b - a) (drop a xs)"

text \<open>One pass of the loop body, for the batch that starts at index \<open>i\<close>.\<close>

definition processBatch :: "Env \<Rightarrow> CouponOffer list \<Rightarrow> nat \<Rightarrow> World \<Rightarrow> World" where
  "processBatch env offers i w =
     (let batch = slice offers i (min (i + BATCH_SIZE) (length offers));
          batchResults = map (\<lambda>off. offerResult off (tabsSendMessage env off)) batch;
          isoNow = toISOString env (dateNow env i);
          (newClipped, newSkipped, s) = settle isoNow batchResults ([], [], currentStats (clippingState w));
          st = (clippingState w) \<lparr> currentStats := s \<rparr>;
          sto = updateStoredCoupons isoNow newClipped newSkipped (storage w)
      in \<lparr> clippingState = st,
           storage = sto \<lparr> clippingStats := Some s, storedClippingState := Some st \<rparr> \<rparr>)"

text \<open>A stop message that arrives while the batch is in flight is handled before the
  loop tests the flag again.\<close>

definition deliverStop :: "Env \<Rightarrow> nat \<Rightarrow> World \<Rightarrow> World" where
  "deliverStop env i w =
     (case stopMessage env i of
        None \<Rightarrow> w
      | Some finalStats \<Rightarrow> handleStopClipping env (dateNow env i) finalStats w)"

function batchLoop :: "Env \<Rightarrow> CouponOffer list \<Rightarrow> nat \<Rightarrow> World \<Rightarrow> World" where
  "batchLoop env offers i w =
     (if i < length offers \<and> isActive (clippingState w)
      then batchLoop env offers (i + BATCH_SIZE) (deliverStop env i (processBatch env offers i w))
      else w)"
  by pat_completeness auto
termination
  by (relation "measure (\<lambda>(env, offers, i, w). length offers - i)") (auto simp: BATCH_SIZE_def)

declare batchLoop.simps [simp del]

definition processOffersInBackground :: "Env \<Rightarrow> CouponOffer list \<Rightarrow> World \<Rightarrow> World" where
  "processOffersInBackground env offers w =
     (let w1 = batchLoop env offers 0 w in
      if isActive (clippingState w1) then
        (let w2 = w1 \<lparr> clippingState := (clippingState w1) \<lparr> isActive := False \<rparr> \<rparr>;
             w3 = saveClippingSession env (dateNow env (length offers)) (currentStats (clippingState w2)) w2
         in w3 \<lparr> storage := (storage w3) \<lparr> storedClippingState := Some (clippingState w3) \<rparr> \<rparr>)
      else w1)"

text \<open>
  \<^verbatim>\<open>processOffersInBackground\<close> is called without \<^verbatim>\<open>await\<close>: it runs until it first
  suspends and the caller goes on. With no offer the loop is skipped and the flag is
  cleared before the first suspension (inside \<^verbatim>\<open>saveClippingSession\<close>); with an offer the
  first suspension is the wait for the first batch, and the state is as it was.
\<close>

definition atFirstSuspension :: "CouponOffer list \<Rightarrow> ClippingState \<Rightarrow> ClippingState" where
  "atFirstSuspension offers st =
     (if 0 < length offers \<and> isActive st then st
      else if isActive st then st \<lparr> isActive := False \<rparr>
      else st)"

text \<open>
  \<^verbatim>\<open>handleStartBackgroundClipping\<close>. The message's \<^verbatim>\<open>offers\<close> may be missing; then
  \<^verbatim>\<open>offers.length\<close> throws while the new stats are built, after the flag and the start
  time were set, and the handler answers with the error. Otherwise the answer carries
  the state as it is when the scheduler first suspends, and the run goes on to its end.
  The first component is the answer (\<open>Inl\<close> the error message), the second the
  process when the run is over. \<open>startedWorld\<close> is the process once the handler has
  set the state for the new run and stored it.
\<close>

definition startedWorld :: "Env \<Rightarrow> int \<Rightarrow> CouponOffer list \<Rightarrow> World \<Rightarrow> World" where
  "startedWorld env now offers w =
     (let st = (clippingState w) \<lparr> isActive := True, startTime := Some now,
                 currentStats := \<lparr> total = length offers, processed = 0, clipped = Some 0,
                   alreadyClipped = Some 0, skipped = Some 0, failed = Some 0 \<rparr> \<rparr>
      in \<lparr> clippingState = st,
           storage = (storage w) \<lparr> storedClippingState := Some st,
                                   lastClippingStart := Some (toISOString env now) \<rparr> \<rparr>)"

definition handleStartBackgroundClipping ::
    "Env \<Rightarrow> int \<Rightarrow> CouponOffer list option \<Rightarrow> World \<Rightarrow> (string + ClippingState) \<times> World" where
  "handleStartBackgroundClipping env now offersField w =
     (case offersField of
        None \<Rightarrow>
          (Inl ''Cannot read properties of undefined (reading 'length')'',
           w \<lparr> clippingState := (clippingState w) \<lparr> isActive := True, startTime := Some now \<rparr> \<rparr>)
      | Some offers \<Rightarrow>
         (let w2 = startedWorld env now offers w
          in (Inr (atFirstSuspension offers (clippingState w2)),
              processOffersInBackground env offers w2)))"


section \<open>The startup sweep\<close>

text \<open>The filter of the retention sweep: a record with no date stays, a record whose
  date does not parse compares false and goes.\<close>

definition retained :: "Env \<Rightarrow> int \<Rightarrow> ClippedCoupon \<Rightarrow> bool" where
  "retained env now coupon =
     (let retentionCutoff = now - DATA_RETENTION_DAYS * 24 * 60 * 60 * 1000 in
      if clippedDate coupon = [] then True
      else case dateParse env (clippedDate coupon) of
             None \<Rightarrow> False
           | Some t \<Rightarrow> t > retentionCutoff)"

definition sweepClipped :: "Env \<Rightarrow> int \<Rightarrow> Storage \<Rightarrow> Storage" where
  "sweepClipped env now st =
     (case clippedCoupons st of
        None \<Rightarrow> st
      | Some cs \<Rightarrow>
         (let activeCoupons = filter (retained env now) cs in
          if length activeCoupons = length cs then st
          else st \<lparr> clippedCoupons := Some activeCoupons \<rparr>))"

text \<open>\<^verbatim>\<open>sessions.slice(-MAX_SESSIONS)\<close>: the last \<open>MAX_SESSIONS\<close> entries, or all of them.\<close>

definition sweepSessions :: "Storage \<Rightarrow> Storage" where
  "sweepSessions st =
     (case clippingSessions st of
        None \<Rightarrow> st
      | Some ss \<Rightarrow>
          if length ss > MAX_SESSION_HISTORY
          then st \<lparr> clippingSessions := Some (drop (length ss - MAX_SESSIONS) ss) \<rparr>
          else st)"

definition onStartup :: "Env \<Rightarrow> int \<Rightarrow> Storage \<Rightarrow> Storage" where
  "onStartup env now st = sweepSessions (sweepClipped env now st)"


section \<open>Predicates and inputs used in the statements\<close>

text \<open>The two conditions under which the result loop keeps a result for storage.\<close>

definition persistsAsClipped :: "OfferResult \<Rightarrow> bool" where
  "persistsAsClipped r = (success r \<and> (wasAlreadyClipped r \<or> \<not> wasSkipped r))"

definition persistsAsSkipped :: "OfferResult \<Rightarrow> bool" where
  "persistsAsSkipped r =
     (success r \<and> wasSkipped r \<and> \<not> wasAlreadyClipped r \<and> isPermanent (orElse (reason r) UNKNOWN))"

definition skippedCouponOf :: "string \<Rightarrow> OfferResult \<Rightarrow> SkippedCoupon" where
  "skippedCouponOf isoNow r =
     toSkippedCoupon isoNow (orElse (reason r) UNKNOWN) (orElse (errorMsg r) ''No specific message'') (offer r)"

text \<open>
  Concrete inputs: an unclipped offer with a given id, and the tab's answers. The offers
  of a run are numbered from 1, and the number in decimal is the id.
\<close>

definition mkOffer :: "string \<Rightarrow> CouponOffer" where
  "mkOffer i = \<lparr> id' = i, title = ''Offer'', program = ''PD'', status = ''A'', clipId = [], clipTs = [],
     originalOffer = None, display = [] \<rparr>"

definition answer :: "ClipOfferResponse \<Rightarrow> tab_reply" where
  "answer r = Replied (MessageResponse.truncate r)"

definition quietEnv :: "(CouponOffer \<Rightarrow> tab_reply) \<Rightarrow> Env" where
  "quietEnv tab = \<lparr> tabsSendMessage = tab, dateNow = (\<lambda>i. 1000 + int i), toISOString = toString,
     dateParse = (\<lambda>s. None), stopMessage = (\<lambda>i. None) \<rparr>"

text \<open>
  A run of seven offers. The tab answers: offers 1 to 3 clipped, offer 4 already clipped,
  offer 5 skipped (limit exceeded), offer 6 failed, offer 7 skipped (unknown).
\<close>

definition scenarioTab :: "CouponOffer \<Rightarrow> tab_reply" where
  "scenarioTab off =
     (if id' off = ''4'' then answer respAlreadyClipped
      else if id' off = ''5'' then answer (respSkipped LIMIT_EXCEEDED (Some ''limit reached''))
      else if id' off = ''6'' then answer (respFailed ''HTTP 500'')
      else if id' off = ''7'' then answer (respSkipped UNKNOWN None)
      else answer respClipped)"

definition sevenOffers :: "CouponOffer list" where
  "sevenOffers = map (\<lambda>n. mkOffer (digits n)) [1 ..< 8]"

text \<open>A run of thirteen offers that a stop message interrupts during the first batch.\<close>

definition thirteenOffers :: "CouponOffer list" where
  "thirteenOffers = map (\<lambda>n. mkOffer (digits n)) [1 ..< 14]"

definition stoppingEnv :: Env where
  "stoppingEnv = (quietEnv (\<lambda>off. answer respClipped))
     \<lparr> stopMessage := (\<lambda>i. if i = 0 then Some None else None) \<rparr>"

text \<open>
  A startup at 2026-04-01T00:00:00Z, ninety days to the millisecond after
  2026-01-01T00:00:00Z. The clock of this environment reads the two dates below and
  takes every other text for an invalid date.
\<close>

definition sweepEnv :: Env where
  "sweepEnv = (quietEnv (\<lambda>off. answer respClipped))
     \<lparr> dateParse := (\<lambda>s. if s = ''2026-01-01T00:00:00.000Z'' then Some 1767225600000
                          else if s = ''2026-01-01T00:00:00.001Z'' then Some 1767225600001
                          else None) \<rparr>"

definition clippedAt :: "string \<Rightarrow> string \<Rightarrow> ClippedCoupon" where
  "clippedAt i d = toClippedCoupon d (mkOffer i)"

definition skippedAt :: "string \<Rightarrow> string \<Rightarrow> SkippedCoupon" where
  "skippedAt i d = toSkippedCoupon d LIMIT_EXCEEDED ''limit reached'' (mkOffer i)"

definition someSession :: ClippingSession where
  "someSession = \<lparr> sessionId = ''1000'', date = ''2026-01-01T00:00:00.000Z'',
     stats = \<lparr> total = 1, processed = 1, clipped = Some 0, alreadyClipped = Some 0,
       skipped = Some 0, failed = Some 0 \<rparr>,
     duration = 0 \<rparr>"

definition storedSessions :: "nat \<Rightarrow> Storage" where
  "storedSessions n = emptyStorage \<lparr> clippingSessions := Some (replicate n someSession) \<rparr>"

text \<open>
  The kinds of answer of the tab, as the scheduler tells them apart: a new clip, an
  already clipped offer, a skip with a given reason, and a failure (an exception, or an
  unsuccessful answer whose error is not one of the expiry messages that the scheduler
  turns into a skip). \<open>answerMessage\<close> is the message stored with a skipped record.
\<close>

definition answeredClipped :: "tab_reply \<Rightarrow> bool" where
  "answeredClipped rep =
     (case rep of
        Replied r \<Rightarrow> success r \<and> \<not> wasAlreadyClipped r \<and> \<not> wasSkipped r
      | Rejected e \<Rightarrow> False)"

definition answeredAlreadyClipped :: "tab_reply \<Rightarrow> bool" where
  "answeredAlreadyClipped rep =
     (case rep of
        Replied r \<Rightarrow> success r \<and> wasAlreadyClipped r
      | Rejected e \<Rightarrow> False)"

definition answeredSkipped :: "string \<Rightarrow> tab_reply \<Rightarrow> bool" where
  "answeredSkipped x rep =
     (case rep of
        Replied r \<Rightarrow> success r \<and> wasSkipped r \<and> \<not> wasAlreadyClipped r \<and> reason r = Some x
      | Rejected e \<Rightarrow> False)"

definition answeredFailed :: "tab_reply \<Rightarrow> bool" where
  "answeredFailed rep =
     (case rep of
        Replied r \<Rightarrow> \<not> success r \<and> \<not> matchesExpired (error r)
      | Rejected e \<Rightarrow> True)"

definition answerMessage :: "tab_reply \<Rightarrow> string" where
  "answerMessage rep =
     (case rep of
        Replied r \<Rightarrow> orElse (errorMsg r) ''No specific message''
      | Rejected e \<Rightarrow> ''No specific message'')"

text \<open>The stored session history holds at most \<open>MAX_SESSIONS\<close> entries.\<close>

definition historyBounded :: "Storage \<Rightarrow> bool" where
  "historyBounded st = (length (orEmpty (clippingSessions st)) \<le> MAX_SESSIONS)"

text \<open>A process whose storage already holds a clipped offer 8 and a skipped offer 9.\<close>

definition stockedWorld :: World where
  "stockedWorld = initialWorld \<lparr> storage := emptyStorage
     \<lparr> clippedCoupons := Some [clippedAt ''8'' ''2026-01-01T00:00:00.000Z''],
       skippedCoupons := Some [skippedAt ''9'' ''2026-01-01T00:00:00.000Z''] \<rparr> \<rparr>"

text \<open>All counters but \<open>processed\<close> agree.\<close>

definition sameCounters :: "ClippingStats \<Rightarrow> ClippingStats \<Rightarrow> bool" where
  "sameCounters a b = (total a = total b \<and> clipped a = clipped b \<and> alreadyClipped a = alreadyClipped b
     \<and> skipped a = skipped b \<and> failed a = failed b)"


section \<open>Substring search\<close>

lemma startsWith_iff: "startsWith s p \<longleftrightarrow> (\<exists>r. s = p @ r)"
  by (induction s p rule: startsWith.induct) auto

lemma includesStr_iff: "includesStr s p \<longleftrightarrow> (\<exists>a b. s = a @ p @ b)"
proof (induction s)
  case Nil
  then show ?case by auto
next
  case (Cons c cs)
  show ?case
  proof
    assume "includesStr (c # cs) p"
    then consider "startsWith (c # cs) p" | "includesStr cs p" by auto
    then show "\<exists>a b. c # cs = a @ p @ b"
    proof cases
      case 1
      then obtain r where "c # cs = p @ r" by (auto simp: startsWith_iff)
      then have "c # cs = [] @ p @ r" by simp
      then show ?thesis by blast
    next
      case 2
      then obtain a b where "cs = a @ p @ b" using Cons.IH by auto
      then have "c # cs = (c # a) @ p @ b" by simp
      then show ?thesis by blast
    qed
  next
    assume "\<exists>a b. c # cs = a @ p @ b"
    then obtain a b where ab: "c # cs = a @ p @ b" by auto
    show "includesStr (c # cs) p"
    proof (cases a)
      case Nil
      with ab have "startsWith (c # cs) p" by (auto simp: startsWith_iff)
      then show ?thesis by simp
    next
      case (Cons x a')
      with ab have "cs = a' @ p @ b" by simp
      then have "includesStr cs p" using Cons.IH by auto
      then show ?thesis by simp
    qed
  qed
qed


section \<open>The classifier\<close>


text \<open>
  Claim C4, as the code has it. The classifier is a function of the item, so the same
  item always gets the same answer. Its tests are case-sensitive substring tests, taken
  in this order: a status 1 with a clip id is a new clip; a status 0 with a clip id and
  a message containing "already clipped" is an already clipped offer; then a message
  containing "not yet active", "past expiry" or "shutoff date" is skipped as
  expired_or_inactive, whatever the status and the clip id; then, for a status 0 without
  clip id, "region"/"store" give not_available_in_store, else "limit"/"maximum"
  limit_exceeded, else "qualify"/"eligible" not_eligible, else "display"/"promotional
  period" display_period_ended, else cannot_clip; a status 0 with a clip id gives
  unknown_with_clipid; every other status gives unexpected_response.
\<close>

theorem classifyItem_priority:
  "(let item = \<lparr> item_status = st, item_clipId = cid, item_errorMsg = m \<rparr>;
        early = (st = 1 \<and> truthy cid \<or> st = 0 \<and> truthy cid \<and> optIncludes m ''already clipped'');
        expired = (optIncludes m ''not yet active'' \<or> optIncludes m ''past expiry'' \<or> optIncludes m ''shutoff date'');
        noId = (\<not> expired \<and> st = 0 \<and> \<not> truthy cid);
        store = (optIncludes m ''region'' \<or> optIncludes m ''store'');
        limit = (optIncludes m ''limit'' \<or> optIncludes m ''maximum'');
        eligible = (optIncludes m ''qualify'' \<or> optIncludes m ''eligible'');
        period = (optIncludes m ''display'' \<or> optIncludes m ''promotional period'')
    in (st = 1 \<and> truthy cid \<longrightarrow> classifyItem item = respClipped)
     \<and> (st = 0 \<and> truthy cid \<and> optIncludes m ''already clipped'' \<longrightarrow> classifyItem item = respAlreadyClipped)
     \<and> (\<not> early \<and> expired \<longrightarrow> classifyItem item = respSkipped EXPIRED_OR_INACTIVE m)
     \<and> (noId \<and> store \<longrightarrow> classifyItem item = respSkipped NOT_AVAILABLE_IN_STORE m)
     \<and> (noId \<and> \<not> store \<and> limit \<longrightarrow> classifyItem item = respSkipped LIMIT_EXCEEDED m)
     \<and> (noId \<and> \<not> store \<and> \<not> limit \<and> eligible \<longrightarrow> classifyItem item = respSkipped NOT_ELIGIBLE m)
     \<and> (noId \<and> \<not> store \<and> \<not> limit \<and> \<not> eligible \<and> period \<longrightarrow>
           classifyItem item = respSkipped DISPLAY_PERIOD_ENDED m)
     \<and> (noId \<and> \<not> store \<and> \<not> limit \<and> \<not> eligible \<and> \<not> period \<longrightarrow>
           classifyItem item = respSkipped CANNOT_CLIP m)
     \<and> (\<not> early \<and> \<not> expired \<and> st = 0 \<and> truthy cid \<longrightarrow>
           classifyItem item = respSkipped UNKNOWN_WITH_CLIPID (Some (orElse m ''Has clipId but status 0'')))
     \<and> (\<not> early \<and> \<not> expired \<and> st \<noteq> 0 \<longrightarrow>
           classifyItem item = respSkipped UNEXPECTED_RESPONSE (Some (orElse m ''No error message''))))"
  unfolding Let_def classifyItem_def skipReasonNoClipId_def
  by (simp del: optIncludes.simps truthy.simps)

text \<open>The theorem of claim C4 at four items, one for each of four of its cases.\<close>

theorem classifyItem_priority_witness:
  "classifyItem \<lparr> item_status = 0, item_clipId = None, item_errorMsg = Some ''Offer is past expiry'' \<rparr>
     = respSkipped EXPIRED_OR_INACTIVE (Some ''Offer is past expiry'')
   \<and> classifyItem \<lparr> item_status = 0, item_clipId = None, item_errorMsg = Some ''limit for this store'' \<rparr>
     = respSkipped NOT_AVAILABLE_IN_STORE (Some ''limit for this store'')
   \<and> classifyItem \<lparr> item_status = 0, item_clipId = Some ''c1'', item_errorMsg = Some ''limit reached'' \<rparr>
     = respSkipped UNKNOWN_WITH_CLIPID (Some ''limit reached'')
   \<and> classifyItem \<lparr> item_status = 2, item_clipId = None, item_errorMsg = None \<rparr>
     = respSkipped UNEXPECTED_RESPONSE (Some ''No error message'')"
  using classifyItem_priority [where st = 0 and cid = None and m = "Some ''Offer is past expiry''"]
    classifyItem_priority [where st = 0 and cid = None and m = "Some ''limit for this store''"]
    classifyItem_priority [where st = 0 and cid = "Some ''c1''" and m = "Some ''limit reached''"]
    classifyItem_priority [where st = 2 and cid = None and m = None]
  by (simp add: Let_def)

text \<open>
  Claim C4 as stated fails: the message "Offer is PAST EXPIRY" (status 0, no clip id) is
  not classified as expired_or_inactive but as cannot_clip, since the search for
  "past expiry" is case-sensitive.
\<close>

theorem past_expiry_is_case_sensitive:
  "classifyItem \<lparr> item_status = 0, item_clipId = None, item_errorMsg = Some ''Offer is PAST EXPIRY'' \<rparr>
     = respSkipped CANNOT_CLIP (Some ''Offer is PAST EXPIRY'')
   \<and> reason (classifyItem \<lparr> item_status = 0, item_clipId = None,
                 item_errorMsg = Some ''Offer is PAST EXPIRY'' \<rparr>) \<noteq> Some EXPIRED_OR_INACTIVE"
  by (simp add: classifyItem_def skipReasonNoClipId_def respSkipped_def response_def SkipReason_defs)


section \<open>Merging into the stored collections\<close>


lemma find_key_Some: "k \<in> f ` set xs \<Longrightarrow> find (\<lambda>c. f c = k) xs \<noteq> None"
  by (induction xs) auto

lemma find_key_None: "k \<notin> f ` set xs \<Longrightarrow> find (\<lambda>c. f c = k) xs = None"
  by (induction xs) auto

lemma find_key_iff: "find (\<lambda>c. f c = k) xs = None \<longleftrightarrow> k \<notin> f ` set xs"
  using find_key_Some find_key_None by metis

lemma filter_key_absent: "k \<notin> f ` set xs \<Longrightarrow> filter (\<lambda>c. f c = k) xs = []"
  by (induction xs) auto

lemma id_toClipped [simp]: "id' (toClippedCoupon now off) = id' off"
  by (simp add: toClippedCoupon_def CouponOffer.extend_def)

lemma mergeClipped_all_present:
  "id' ` set offs \<subseteq> id' ` set existing \<Longrightarrow> mergeClipped now existing offs = existing"
proof (induction offs)
  case Nil
  then show ?case by simp
next
  case (Cons off offs)
  then have "id' off \<in> id' ` set existing" by simp
  then have "find (\<lambda>c. id' c = id' off) existing \<noteq> None"
    by (rule find_key_Some)
  with Cons show ?case by (auto split: option.splits)
qed

lemma mergeClipped_ids:
  "id' ` set (mergeClipped now existing offs) = id' ` set existing \<union> id' ` set offs"
proof (induction offs arbitrary: existing)
  case Nil
  then show ?case by simp
next
  case (Cons off offs)
  show ?case
  proof (cases "find (\<lambda>c. id' c = id' off) existing")
    case None
    then show ?thesis using Cons.IH [of "existing @ [toClippedCoupon now off]"] by auto
  next
    case (Some c)
    then have "id' off \<in> id' ` set existing"
      using find_key_None [of "id' off" id' existing] by auto
    with Some show ?thesis using Cons.IH [of existing] by auto
  qed
qed

lemma mergeClipped_appends: "\<exists>ys. mergeClipped now existing offs = existing @ ys"
proof (induction offs arbitrary: existing)
  case Nil
  then show ?case by simp
next
  case (Cons off offs)
  show ?case
  proof (cases "find (\<lambda>c. id' c = id' off) existing")
    case None
    obtain ys where "mergeClipped now (existing @ [toClippedCoupon now off]) offs
        = (existing @ [toClippedCoupon now off]) @ ys"
      using Cons.IH by blast
    with None show ?thesis by simp
  next
    case (Some c)
    then show ?thesis using Cons.IH [of existing] by simp
  qed
qed

lemma mergeClipped_idem:
  "mergeClipped now (mergeClipped now existing offs) offs = mergeClipped now existing offs"
  by (rule mergeClipped_all_present) (simp add: mergeClipped_ids)

lemma mergeSkipped_all_present:
  "id' ` set scs \<subseteq> id' ` set existing \<Longrightarrow> mergeSkipped existing scs = existing"
proof (induction scs)
  case Nil
  then show ?case by simp
next
  case (Cons sc scs)
  then have "id' sc \<in> id' ` set existing" by simp
  then have "find (\<lambda>c. id' c = id' sc) existing \<noteq> None"
    by (rule find_key_Some)
  with Cons show ?case by (auto split: option.splits)
qed

lemma mergeSkipped_ids:
  "id' ` set (mergeSkipped existing scs) = id' ` set existing \<union> id' ` set scs"
proof (induction scs arbitrary: existing)
  case Nil
  then show ?case by simp
next
  case (Cons sc scs)
  show ?case
  proof (cases "find (\<lambda>c. id' c = id' sc) existing")
    case None
    then show ?thesis using Cons.IH [of "existing @ [sc]"] by auto
  next
    case (Some c)
    then have "id' sc \<in> id' ` set existing"
      using find_key_None [of "id' sc" id' existing] by auto
    with Some show ?thesis using Cons.IH [of existing] by auto
  qed
qed

lemma mergeSkipped_idem:
  "mergeSkipped (mergeSkipped existing scs) scs = mergeSkipped existing scs"
  by (rule mergeSkipped_all_present) (simp add: mergeSkipped_ids)


text \<open>
  Claim C7. Merging a clipped offer whose id is already stored leaves the collection as
  it is; merging an offer with a new id twice, in one merge, appends one record and the
  collection then holds exactly one record with that id; merging any list a second
  time changes nothing. The same holds of the skipped records.
\<close>

theorem merge_idempotent:
  "(id' off \<in> id' ` set existing \<longrightarrow> mergeClipped now existing [off] = existing)
   \<and> (id' off \<notin> id' ` set existing \<longrightarrow>
        mergeClipped now existing [off] = existing @ [toClippedCoupon now off]
        \<and> mergeClipped now existing [off, off] = existing @ [toClippedCoupon now off]
        \<and> length (filter (\<lambda>c. id' c = id' off) (mergeClipped now existing [off, off])) = 1)
   \<and> mergeClipped now (mergeClipped now existing offs) offs = mergeClipped now existing offs
   \<and> (id' sc \<in> id' ` set existingSkipped \<longrightarrow> mergeSkipped existingSkipped [sc] = existingSkipped)
   \<and> (id' sc \<notin> id' ` set existingSkipped \<longrightarrow>
        mergeSkipped existingSkipped [sc, sc] = existingSkipped @ [sc]
        \<and> length (filter (\<lambda>c. id' c = id' sc) (mergeSkipped existingSkipped [sc, sc])) = 1)
   \<and> mergeSkipped (mergeSkipped existingSkipped scs) scs = mergeSkipped existingSkipped scs"
proof -
  have c1: "mergeClipped now existing [off] = existing" if "id' off \<in> id' ` set existing"
    using that by (intro mergeClipped_all_present) simp
  have f: "find (\<lambda>c. id' c = id' off) existing = None" if "id' off \<notin> id' ` set existing"
    using that by (rule find_key_None)
  have c2: "mergeClipped now existing [off] = existing @ [toClippedCoupon now off]"
    if "id' off \<notin> id' ` set existing"
    using f [OF that] by simp
  have c3: "mergeClipped now existing [off, off] = existing @ [toClippedCoupon now off]"
    if "id' off \<notin> id' ` set existing"
  proof -
    have "find (\<lambda>c. id' c = id' off) (existing @ [toClippedCoupon now off]) \<noteq> None"
      by (rule find_key_Some) simp
    then obtain c where "find (\<lambda>c. id' c = id' off) (existing @ [toClippedCoupon now off]) = Some c"
      by auto
    with f [OF that] show ?thesis by simp
  qed
  have c4: "length (filter (\<lambda>c. id' c = id' off) (mergeClipped now existing [off, off])) = 1"
    if "id' off \<notin> id' ` set existing"
    by (simp add: c3 [OF that] filter_key_absent [OF that] del: mergeClipped.simps)
  have s1: "mergeSkipped existingSkipped [sc] = existingSkipped"
    if "id' sc \<in> id' ` set existingSkipped"
    using that by (intro mergeSkipped_all_present) simp
  have g: "find (\<lambda>c. id' c = id' sc) existingSkipped = None" if "id' sc \<notin> id' ` set existingSkipped"
    using that by (rule find_key_None)
  have s3: "mergeSkipped existingSkipped [sc, sc] = existingSkipped @ [sc]"
    if "id' sc \<notin> id' ` set existingSkipped"
  proof -
    have "find (\<lambda>c. id' c = id' sc) (existingSkipped @ [sc]) \<noteq> None"
      by (rule find_key_Some) simp
    then obtain c where "find (\<lambda>c. id' c = id' sc) (existingSkipped @ [sc]) = Some c"
      by auto
    with g [OF that] show ?thesis by simp
  qed
  have s4: "length (filter (\<lambda>c. id' c = id' sc) (mergeSkipped existingSkipped [sc, sc])) = 1"
    if "id' sc \<notin> id' ` set existingSkipped"
    by (simp add: s3 [OF that] filter_key_absent [OF that] del: mergeSkipped.simps)
  show ?thesis
    using c1 c2 c3 c4 s1 s3 s4 mergeClipped_idem mergeSkipped_idem by blast
qed


text \<open>The theorem of claim C7 at a stored offer and at a new offer merged twice.\<close>

theorem merge_idempotent_witness:
  "id' (mkOffer ''1'') \<in> id' ` set [clippedAt ''1'' ''t1'']
   \<and> mergeClipped ''t2'' [clippedAt ''1'' ''t1''] [mkOffer ''1''] = [clippedAt ''1'' ''t1'']
   \<and> mergeClipped ''t2'' [] [mkOffer ''1'', mkOffer ''1''] = [clippedAt ''1'' ''t2'']
   \<and> length (filter (\<lambda>c. id' c = id' (mkOffer ''1'')) (mergeClipped ''t2'' [] [mkOffer ''1'', mkOffer ''1''])) = 1
   \<and> mergeSkipped [skippedAt ''1'' ''t1''] [skippedAt ''1'' ''t2''] = [skippedAt ''1'' ''t1'']
   \<and> mergeSkipped [] [skippedAt ''1'' ''t2'', skippedAt ''1'' ''t2''] = [skippedAt ''1'' ''t2'']"
proof -
  note t1 = merge_idempotent [where off = "mkOffer ''1''" and existing = "[clippedAt ''1'' ''t1'']"
      and now = "''t2''" and sc = "skippedAt ''1'' ''t2''" and existingSkipped = "[skippedAt ''1'' ''t1'']"]
  note t2 = merge_idempotent [where off = "mkOffer ''1''" and existing = "[]" and now = "''t2''"
      and sc = "skippedAt ''1'' ''t2''" and existingSkipped = "[]"]
  have a: "id' (mkOffer ''1'') \<in> id' ` set [clippedAt ''1'' ''t1'']"
    by (simp add: clippedAt_def)
  have b: "id' (mkOffer ''1'') \<notin> id' ` set ([] :: ClippedCoupon list)"
    by simp
  have c: "id' (skippedAt ''1'' ''t2'') \<in> id' ` set [skippedAt ''1'' ''t1'']"
    by (simp add: skippedAt_def toSkippedCoupon_def CouponOffer.extend_def)
  have d: "id' (skippedAt ''1'' ''t2'') \<notin> id' ` set ([] :: SkippedCoupon list)"
    by simp
  from t1 a have 1: "mergeClipped ''t2'' [clippedAt ''1'' ''t1''] [mkOffer ''1''] = [clippedAt ''1'' ''t1'']"
    by blast
  from t2 b have 2: "mergeClipped ''t2'' [] [mkOffer ''1'', mkOffer ''1''] = [] @ [toClippedCoupon ''t2'' (mkOffer ''1'')]"
    by blast
  from t2 b have 3: "length (filter (\<lambda>c. id' c = id' (mkOffer ''1''))
      (mergeClipped ''t2'' [] [mkOffer ''1'', mkOffer ''1''])) = 1"
    by blast
  from t1 c have 4: "mergeSkipped [skippedAt ''1'' ''t1''] [skippedAt ''1'' ''t2''] = [skippedAt ''1'' ''t1'']"
    by blast
  from t2 d have 5: "mergeSkipped [] [skippedAt ''1'' ''t2'', skippedAt ''1'' ''t2''] = [] @ [skippedAt ''1'' ''t2'']"
    by blast
  from a 1 2 3 4 5 show ?thesis
    by (simp only: clippedAt_def append_Nil simp_thms)
qed


section \<open>The result loop and the batch loop\<close>


lemma settle_closed_form:
  "settle isoNow rs (nc, ns, s) =
     (nc @ map offer (filter persistsAsClipped rs),
      ns @ map (skippedCouponOf isoNow) (filter persistsAsSkipped rs),
      s \<lparr> processed := processed s + length rs \<rparr>)"
proof (induction rs arbitrary: nc ns s)
  case Nil
  then show ?case by simp
next
  case (Cons r rs)
  show ?case
    by (simp add: Cons.IH Let_def persistsAsClipped_def persistsAsSkipped_def skippedCouponOf_def)
qed

lemma length_slice: "length (slice xs i (min (i + n) (length xs))) = min n (length xs - i)"
  by (auto simp: slice_def)

lemma processBatch_state:
  "clippingState (processBatch env offers i w) =
     (clippingState w) \<lparr> currentStats := (currentStats (clippingState w))
        \<lparr> processed := processed (currentStats (clippingState w)) + min BATCH_SIZE (length offers - i) \<rparr> \<rparr>"
  by (simp add: processBatch_def settle_closed_form Let_def length_slice)

lemma processBatch_storage:
  "storage (processBatch env offers i w) =
     (let batch = slice offers i (min (i + BATCH_SIZE) (length offers));
          rs = map (\<lambda>off. offerResult off (tabsSendMessage env off)) batch;
          isoNow = toISOString env (dateNow env i)
      in (updateStoredCoupons isoNow (map offer (filter persistsAsClipped rs))
            (map (skippedCouponOf isoNow) (filter persistsAsSkipped rs)) (storage w))
          \<lparr> clippingStats := Some (currentStats (clippingState (processBatch env offers i w))),
            storedClippingState := Some (clippingState (processBatch env offers i w)) \<rparr>)"
  by (simp add: processBatch_def settle_closed_form Let_def length_slice)

lemma handleStop_state:
  "clippingState (handleStopClipping env now fs w) =
     (clippingState w) \<lparr> isActive := False, lastActivity := Some now \<rparr>"
  by (simp add: handleStopClipping_def saveClippingSession_def Let_def split: option.splits)

lemma deliverStop_stats:
  "currentStats (clippingState (deliverStop env i w)) = currentStats (clippingState w)"
  by (simp add: deliverStop_def handleStop_state split: option.splits)

lemma deliverStop_active:
  "isActive (clippingState (deliverStop env i w)) = (isActive (clippingState w) \<and> stopMessage env i = None)"
  by (simp add: deliverStop_def handleStop_state split: option.splits)

lemma batchLoop_stop:
  "\<not> (i < length offers \<and> isActive (clippingState w)) \<Longrightarrow> batchLoop env offers i w = w"
  by (subst batchLoop.simps) auto

lemma batchLoop_inactive: "\<not> isActive (clippingState w) \<Longrightarrow> batchLoop env offers i w = w"
  by (rule batchLoop_stop) simp

lemma batchLoop_done: "length offers \<le> i \<Longrightarrow> batchLoop env offers i w = w"
  by (rule batchLoop_stop) simp

lemma batchLoop_step:
  "i < length offers \<Longrightarrow> isActive (clippingState w) \<Longrightarrow>
   batchLoop env offers i w = batchLoop env offers (i + BATCH_SIZE) (deliverStop env i (processBatch env offers i w))"
  by (subst batchLoop.simps) simp

lemma batchLoop_counters:
  "sameCounters (currentStats (clippingState (batchLoop env offers i w))) (currentStats (clippingState w))"
proof (induction env offers i w rule: batchLoop.induct)
  case (1 env offers i w)
  show ?case
  proof (cases "i < length offers \<and> isActive (clippingState w)")
    case True
    then show ?thesis
      using 1 by (simp add: batchLoop_step deliverStop_stats processBatch_state sameCounters_def)
  next
    case False
    then show ?thesis by (simp add: batchLoop_stop sameCounters_def)
  qed
qed

lemma batchLoop_processed_le:
  "processed (currentStats (clippingState w)) = i \<Longrightarrow> i \<le> length offers \<Longrightarrow>
   processed (currentStats (clippingState (batchLoop env offers i w))) \<le> length offers"
proof (induction env offers i w rule: batchLoop.induct)
  case (1 env offers i w)
  show ?case
  proof (cases "i < length offers \<and> isActive (clippingState w)")
    case True
    let ?w = "deliverStop env i (processBatch env offers i w)"
    have p: "processed (currentStats (clippingState ?w)) = i + min BATCH_SIZE (length offers - i)"
      using "1.prems" by (simp add: deliverStop_stats processBatch_state)
    show ?thesis
    proof (cases "i + BATCH_SIZE \<le> length offers")
      case le: True
      with p have "processed (currentStats (clippingState ?w)) = i + BATCH_SIZE" by simp
      with "1.IH" True le show ?thesis by (simp add: batchLoop_step)
    next
      case gt: False
      with p have "processed (currentStats (clippingState ?w)) = length offers" using True by simp
      moreover have "batchLoop env offers (i + BATCH_SIZE) ?w = ?w"
        using gt by (simp add: batchLoop_done)
      ultimately show ?thesis using True by (simp add: batchLoop_step)
    qed
  next
    case False
    with "1.prems" show ?thesis by (simp add: batchLoop_stop)
  qed
qed

lemma batchLoop_completes:
  "processed (currentStats (clippingState w)) = i \<Longrightarrow> i \<le> length offers \<Longrightarrow>
   isActive (clippingState (batchLoop env offers i w)) \<Longrightarrow>
   processed (currentStats (clippingState (batchLoop env offers i w))) = length offers"
proof (induction env offers i w rule: batchLoop.induct)
  case (1 env offers i w)
  show ?case
  proof (cases "i < length offers \<and> isActive (clippingState w)")
    case True
    let ?w = "deliverStop env i (processBatch env offers i w)"
    have p: "processed (currentStats (clippingState ?w)) = i + min BATCH_SIZE (length offers - i)"
      using "1.prems" by (simp add: deliverStop_stats processBatch_state)
    have step: "batchLoop env offers i w = batchLoop env offers (i + BATCH_SIZE) ?w"
      using True by (simp add: batchLoop_step)
    show ?thesis
    proof (cases "i + BATCH_SIZE \<le> length offers")
      case le: True
      with p have "processed (currentStats (clippingState ?w)) = i + BATCH_SIZE" by simp
      with "1.IH" True le "1.prems"(3) show ?thesis by (simp add: step)
    next
      case gt: False
      with p have "processed (currentStats (clippingState ?w)) = length offers" using True by simp
      moreover have "batchLoop env offers (i + BATCH_SIZE) ?w = ?w"
        using gt by (simp add: batchLoop_done)
      ultimately show ?thesis by (simp add: step)
    qed
  next
    case False
    with "1.prems" show ?thesis by (simp add: batchLoop_stop)
  qed
qed


section \<open>Runs: statistics and cancellation\<close>


lemma batchLoop_active:
  "(\<And>j. stopMessage env j = None) \<Longrightarrow>
   isActive (clippingState (batchLoop env offers i w)) = isActive (clippingState w)"
proof (induction env offers i w rule: batchLoop.induct)
  case (1 env offers i w)
  show ?case
  proof (cases "i < length offers \<and> isActive (clippingState w)")
    case True
    then show ?thesis
      using 1 by (simp add: batchLoop_step deliverStop_active processBatch_state)
  next
    case False
    then show ?thesis by (simp add: batchLoop_stop)
  qed
qed

lemma saveClippingSession_state [simp]:
  "clippingState (saveClippingSession env now s w) = clippingState w"
  by (simp add: saveClippingSession_def Let_def)

lemma processOffers_stats:
  "currentStats (clippingState (processOffersInBackground env offers w)) =
   currentStats (clippingState (batchLoop env offers 0 w))"
  by (simp add: processOffersInBackground_def Let_def)

lemma processOffers_inactive:
  "\<not> isActive (clippingState (processOffersInBackground env offers w))"
  by (simp add: processOffersInBackground_def Let_def)

lemma startedWorld_state:
  "clippingState (startedWorld env now offers w) =
     (clippingState w) \<lparr> isActive := True, startTime := Some now,
        currentStats := \<lparr> total = length offers, processed = 0, clipped = Some 0,
          alreadyClipped = Some 0, skipped = Some 0, failed = Some 0 \<rparr> \<rparr>"
  by (simp add: startedWorld_def Let_def)

text \<open>What holds of the stats of every run.\<close>

lemma run_stats:
  fixes env now offers w
  defines "s \<equiv> currentStats (clippingState (snd (handleStartBackgroundClipping env now (Some offers) w)))"
  shows "ClippingStats.total s = length offers"
    and "processed s \<le> ClippingStats.total s"
    and "clipped s = Some 0" and "alreadyClipped s = Some 0" and "skipped s = Some 0" and "failed s = Some 0"
    and "(\<And>j. stopMessage env j = None) \<Longrightarrow> processed s = ClippingStats.total s"
proof -
  let ?w2 = "startedWorld env now offers w"
  let ?w1 = "batchLoop env offers 0 ?w2"
  have s: "s = currentStats (clippingState ?w1)"
    by (simp add: s_def handleStartBackgroundClipping_def Let_def processOffers_stats)
  have same: "sameCounters (currentStats (clippingState ?w1)) (currentStats (clippingState ?w2))"
    by (rule batchLoop_counters)
  then show t: "ClippingStats.total s = length offers"
    and "clipped s = Some 0" and "alreadyClipped s = Some 0" and "skipped s = Some 0" and "failed s = Some 0"
    by (simp_all add: s sameCounters_def startedWorld_state)
  have "processed (currentStats (clippingState ?w1)) \<le> length offers"
    by (rule batchLoop_processed_le) (simp_all add: startedWorld_state)
  with t show "processed s \<le> ClippingStats.total s" by (simp add: s)
  show "processed s = ClippingStats.total s" if "\<And>j. stopMessage env j = None"
  proof -
    have "isActive (clippingState ?w1)"
      using batchLoop_active [OF that, of offers 0 ?w2] by (simp add: startedWorld_state)
    then have "processed (currentStats (clippingState ?w1)) = length offers"
      by (intro batchLoop_completes) (simp_all add: startedWorld_state)
    with t show ?thesis by (simp add: s)
  qed
qed

text \<open>
  Claim C1 at a run of one offer that the tab reports as clipped: when the batch has
  settled and the run is over, \<open>processed\<close> is 1 and the counters \<open>clipped\<close>,
  \<open>alreadyClipped\<close>, \<open>skipped\<close> and \<open>failed\<close> are all 0, so \<open>processed\<close> is not their
  sum. (By \<open>run_stats\<close> this is so in every run: the result loop only counts
  \<open>processed\<close>. In a run that no other run overlaps, \<open>processed \<le> total\<close> holds, and
  \<open>processed = total\<close> when no stop message arrives.)
\<close>

theorem counters_stay_zero:
  "currentStats (clippingState (snd (handleStartBackgroundClipping (quietEnv (\<lambda>off. answer respClipped))
       1000 (Some [mkOffer ''1'']) initialWorld)))
   = \<lparr> total = 1, processed = 1, clipped = Some 0, alreadyClipped = Some 0, skipped = Some 0,
       failed = Some 0 \<rparr>"
  by code_simp

text \<open>
  Claim C5. When a stop message clears the flag while the batch that starts at index
  \<open>i\<close> is in flight, that batch settles and the loop ends: no further batch starts, and
  the scheduler does nothing more. With 13 offers and the stop during the first batch,
  the run consists of the first batch alone, which is the first five offers, and it
  ends with \<open>processed = 5\<close>, \<open>total = 13\<close> and the flag cleared.
\<close>

theorem cancellation_between_batches:
  "(i < length offers \<and> isActive (clippingState w) \<and> stopMessage env i = Some finalStats \<longrightarrow>
      batchLoop env offers i w = deliverStop env i (processBatch env offers i w)
      \<and> processOffersInBackground env offers (deliverStop env i (processBatch env offers i w))
          = deliverStop env i (processBatch env offers i w))
   \<and> (length offers = 13 \<and> stopMessage env 0 = Some finalStats \<longrightarrow>
        (let w' = snd (handleStartBackgroundClipping env now (Some offers) w0) in
           w' = deliverStop env 0 (processBatch env offers 0 (startedWorld env now offers w0))
           \<and> slice offers 0 (min (0 + BATCH_SIZE) (length offers)) = take 5 offers
           \<and> processed (currentStats (clippingState w')) = 5
           \<and> ClippingStats.total (currentStats (clippingState w')) = 13
           \<and> \<not> isActive (clippingState w')))"
proof -
  have stopped: "\<not> isActive (clippingState (deliverStop env j (processBatch env offers j v)))"
    if "stopMessage env j = Some finalStats" for j v
    using that by (simp add: deliverStop_active)
  have one: "batchLoop env offers j v = deliverStop env j (processBatch env offers j v)"
    if "j < length offers" "isActive (clippingState v)" "stopMessage env j = Some finalStats" for j v
    using that by (simp add: batchLoop_step batchLoop_inactive stopped)
  have rest: "processOffersInBackground env offers (deliverStop env j (processBatch env offers j v))
          = deliverStop env j (processBatch env offers j v)"
    if "stopMessage env j = Some finalStats" for j v
    using stopped [OF that] by (simp add: processOffersInBackground_def Let_def batchLoop_inactive)
  have run: "snd (handleStartBackgroundClipping env now (Some offers) w0)
      = deliverStop env 0 (processBatch env offers 0 (startedWorld env now offers w0))"
    (is "?l = ?r")
    if "length offers = 13" "stopMessage env 0 = Some finalStats"
  proof -
    have "batchLoop env offers 0 (startedWorld env now offers w0) = ?r"
      using that by (intro one) (simp_all add: startedWorld_state)
    then show ?thesis
      using stopped [OF that(2)]
      by (simp add: handleStartBackgroundClipping_def processOffersInBackground_def Let_def)
  qed
  have stats: "processed (currentStats (clippingState
        (deliverStop env 0 (processBatch env offers 0 (startedWorld env now offers w0))))) = 5
     \<and> ClippingStats.total (currentStats (clippingState
        (deliverStop env 0 (processBatch env offers 0 (startedWorld env now offers w0))))) = 13"
    if "length offers = 13"
    using that by (simp add: deliverStop_stats processBatch_state startedWorld_state BATCH_SIZE_def)
  have sl: "slice offers 0 (min (0 + BATCH_SIZE) (length offers)) = take 5 offers"
    if "length offers = 13"
    using that by (simp add: slice_def BATCH_SIZE_def)
  show ?thesis
    using one rest run stats sl stopped by (simp add: Let_def)
qed

text \<open>The theorem of claim C5 at a run of thirteen offers stopped during the first batch.\<close>

theorem cancellation_between_batches_witness:
  "length thirteenOffers = 13 \<and> stopMessage stoppingEnv 0 = Some None
   \<and> isActive (clippingState (startedWorld stoppingEnv 1000 thirteenOffers initialWorld))
   \<and> batchLoop stoppingEnv thirteenOffers 0 (startedWorld stoppingEnv 1000 thirteenOffers initialWorld)
       = deliverStop stoppingEnv 0
           (processBatch stoppingEnv thirteenOffers 0 (startedWorld stoppingEnv 1000 thirteenOffers initialWorld))
   \<and> processed (currentStats (clippingState
        (snd (handleStartBackgroundClipping stoppingEnv 1000 (Some thirteenOffers) initialWorld)))) = 5
   \<and> ClippingStats.total (currentStats (clippingState
        (snd (handleStartBackgroundClipping stoppingEnv 1000 (Some thirteenOffers) initialWorld)))) = 13
   \<and> \<not> isActive (clippingState
        (snd (handleStartBackgroundClipping stoppingEnv 1000 (Some thirteenOffers) initialWorld)))"
proof -
  have l: "length thirteenOffers = 13" by (simp add: thirteenOffers_def)
  have m: "stopMessage stoppingEnv 0 = Some None" by (simp add: stoppingEnv_def)
  have a: "isActive (clippingState (startedWorld stoppingEnv 1000 thirteenOffers initialWorld))"
    by (simp add: startedWorld_state)
  have i: "0 < length thirteenOffers" by (simp add: thirteenOffers_def)
  note t = cancellation_between_batches [where offers = thirteenOffers and env = stoppingEnv
        and finalStats = None and now = 1000 and ?w0.0 = initialWorld and i = 0
        and w = "startedWorld stoppingEnv 1000 thirteenOffers initialWorld", unfolded Let_def]
  from t l m a i show ?thesis by blast
qed


section \<open>Starting a run\<close>


text \<open>
  Claim C6, as the code has it. A start message without an \<open>offers\<close> list is answered
  with an error. A start message with an empty list is answered with the state of a run
  that is already over (the flag cleared, \<open>total = 0\<close>), not with an error. A start message
  with a non-empty list is answered with the state of the new run: the flag set,
  \<open>total\<close> the number of offers and all other counters 0.
\<close>

theorem start_run_answers:
  "isl (fst (handleStartBackgroundClipping env now None w))
   \<and> fst (handleStartBackgroundClipping env now (Some []) w)
       = Inr ((clippingState (startedWorld env now [] w)) \<lparr> isActive := False \<rparr>)
   \<and> ClippingStats.total (currentStats (clippingState (startedWorld env now [] w))) = 0
   \<and> (offers \<noteq> [] \<longrightarrow>
        fst (handleStartBackgroundClipping env now (Some offers) w)
          = Inr (clippingState (startedWorld env now offers w))
        \<and> isActive (clippingState (startedWorld env now offers w))
        \<and> currentStats (clippingState (startedWorld env now offers w))
            = \<lparr> total = length offers, processed = 0, clipped = Some 0, alreadyClipped = Some 0,
                skipped = Some 0, failed = Some 0 \<rparr>)"
  by (simp add: handleStartBackgroundClipping_def atFirstSuspension_def startedWorld_state Let_def)

text \<open>The theorem of claim C6 at a run of one offer.\<close>

theorem start_run_answers_witness:
  "[mkOffer ''1''] \<noteq> []
   \<and> fst (handleStartBackgroundClipping (quietEnv (\<lambda>off. answer respClipped)) 1000 (Some [mkOffer ''1'']) initialWorld)
     = Inr \<lparr> isActive = True,
             currentStats = \<lparr> total = 1, processed = 0, clipped = Some 0, alreadyClipped = Some 0,
               skipped = Some 0, failed = Some 0 \<rparr>,
             startTime = Some 1000, lastActivity = None \<rparr>"
  using start_run_answers [where offers = "[mkOffer ''1'']" and env = "quietEnv (\<lambda>off. answer respClipped)"
      and now = 1000 and w = initialWorld]
  by (simp add: startedWorld_state initialWorld_def initialState_def)

text \<open>
  Claim C6 as stated fails: the answer to a start message with an empty list of offers
  is not an error but a state, with the flag already cleared.
\<close>

theorem empty_offer_list_is_accepted:
  "fst (handleStartBackgroundClipping (quietEnv (\<lambda>off. answer respClipped)) 1000 (Some []) initialWorld)
     = Inr \<lparr> isActive = False,
             currentStats = \<lparr> total = 0, processed = 0, clipped = Some 0, alreadyClipped = Some 0,
               skipped = Some 0, failed = Some 0 \<rparr>,
             startTime = Some 1000, lastActivity = None \<rparr>"
  by code_simp

lemma first_suspension_of_empty_run:
  "clippingState (processOffersInBackground env [] w) = atFirstSuspension [] (clippingState w)"
  by (simp add: processOffersInBackground_def atFirstSuspension_def Let_def batchLoop_done)


section \<open>Which skipped results are stored\<close>


lemma offer_offerResult [simp]: "offer (offerResult off rep) = off"
  by (simp add: offerResult_def Let_def split: tab_reply.splits)

lemma skipReason_skippedCouponOf [simp]:
  "skipReason (skippedCouponOf isoNow r) = orElse (reason r) UNKNOWN"
  by (simp add: skippedCouponOf_def toSkippedCoupon_def CouponOffer.extend_def SkippedCoupon.fields_def)

lemma mergeSkipped_members:
  "set (mergeSkipped existing scs) \<subseteq> set existing \<union> set scs"
proof (induction scs arbitrary: existing)
  case Nil
  then show ?case by simp
next
  case (Cons sc scs)
  show ?case
  proof (cases "find (\<lambda>c. id' c = id' sc) existing")
    case None
    then show ?thesis using Cons.IH [of "existing @ [sc]"] by auto
  next
    case (Some c)
    then show ?thesis using Cons.IH [of existing] by auto
  qed
qed

lemma updateStoredCoupons_skipped:
  "set (orEmpty (skippedCoupons (updateStoredCoupons isoNow nc ns st)))
     \<subseteq> set (orEmpty (skippedCoupons st)) \<union> set ns"
  using mergeSkipped_members [of "orEmpty (skippedCoupons st)" ns]
  by (simp add: updateStoredCoupons_def)

lemma processBatch_coupons:
  "skippedCoupons (storage (processBatch env offers i w)) =
     skippedCoupons (updateStoredCoupons (toISOString env (dateNow env i))
       (map offer (filter persistsAsClipped (map (\<lambda>off. offerResult off (tabsSendMessage env off))
          (slice offers i (min (i + BATCH_SIZE) (length offers))))))
       (map (skippedCouponOf (toISOString env (dateNow env i)))
          (filter persistsAsSkipped (map (\<lambda>off. offerResult off (tabsSendMessage env off))
             (slice offers i (min (i + BATCH_SIZE) (length offers))))))
       (storage w))"
  "clippedCoupons (storage (processBatch env offers i w)) =
     clippedCoupons (updateStoredCoupons (toISOString env (dateNow env i))
       (map offer (filter persistsAsClipped (map (\<lambda>off. offerResult off (tabsSendMessage env off))
          (slice offers i (min (i + BATCH_SIZE) (length offers))))))
       (map (skippedCouponOf (toISOString env (dateNow env i)))
          (filter persistsAsSkipped (map (\<lambda>off. offerResult off (tabsSendMessage env off))
             (slice offers i (min (i + BATCH_SIZE) (length offers))))))
       (storage w))"
  by (simp_all add: processBatch_storage Let_def)

lemma id_skippedCouponOf [simp]: "id' (skippedCouponOf isoNow r) = id' (offer r)"
  by (simp add: skippedCouponOf_def toSkippedCoupon_def CouponOffer.extend_def)

lemma mergeSkipped_appends: "\<exists>ys. mergeSkipped existing scs = existing @ ys"
proof (induction scs arbitrary: existing)
  case Nil
  then show ?case by simp
next
  case (Cons sc scs)
  show ?case
  proof (cases "find (\<lambda>c. id' c = id' sc) existing")
    case None
    obtain ys where "mergeSkipped (existing @ [sc]) scs = (existing @ [sc]) @ ys"
      using Cons.IH by blast
    with None show ?thesis by simp
  next
    case (Some c)
    then show ?thesis using Cons.IH [of existing] by simp
  qed
qed

lemma mergeSkipped_keeps: "set existing \<subseteq> set (mergeSkipped existing scs)"
  using mergeSkipped_appends [of existing scs] by auto

lemma mergeSkipped_new_member:
  "sc \<in> set scs \<Longrightarrow> id' sc \<notin> id' ` set existing \<Longrightarrow>
   \<exists>sc' \<in> set scs. id' sc' = id' sc \<and> sc' \<in> set (mergeSkipped existing scs)"
proof (induction scs arbitrary: existing)
  case Nil
  then show ?case by simp
next
  case (Cons a scs)
  show ?case
  proof (cases "id' a = id' sc")
    case True
    with Cons.prems(2) have "find (\<lambda>c. id' c = id' a) existing = None"
      by (simp add: find_key_None)
    moreover have "a \<in> set (mergeSkipped (existing @ [a]) scs)"
      using mergeSkipped_keeps [of "existing @ [a]" scs] by auto
    ultimately have "a \<in> set (mergeSkipped existing (a # scs))" by simp
    with True show ?thesis by auto
  next
    case False
    with Cons.prems(1) have mem: "sc \<in> set scs" by auto
    show ?thesis
    proof (cases "find (\<lambda>c. id' c = id' a) existing")
      case None
      have "id' sc \<notin> id' ` set (existing @ [a])"
        using Cons.prems(2) False by auto
      from Cons.IH [OF mem this] None show ?thesis by auto
    next
      case (Some c)
      from Cons.IH [OF mem Cons.prems(2)] Some show ?thesis by auto
    qed
  qed
qed

lemma mergeSkipped_new_member_distinct:
  assumes "sc \<in> set scs" "id' sc \<notin> id' ` set existing" "distinct (map id' scs)"
  shows "sc \<in> set (mergeSkipped existing scs)"
proof -
  obtain sc' where o: "sc' \<in> set scs" "id' sc' = id' sc" "sc' \<in> set (mergeSkipped existing scs)"
    using mergeSkipped_new_member [OF assms(1,2)] by blast
  have "inj_on id' (set scs)" using assms(3) by (simp add: distinct_map)
  with o assms(1) have "sc' = sc" by (auto dest: inj_onD)
  with o show ?thesis by simp
qed

lemma relabelled_result:
  "wasSkipped r \<Longrightarrow> success r \<Longrightarrow> \<not> wasAlreadyClipped r \<Longrightarrow>
   falsy (reason r) \<or> reason r = Some UNKNOWN \<Longrightarrow>
   \<not> persistsAsClipped (offerResult off (Replied r)) \<and> persistsAsSkipped (offerResult off (Replied r))
   \<and> reason (offerResult off (Replied r)) = Some EXPIRED_OR_INACTIVE
   \<and> skippedCouponOf isoNow (offerResult off (Replied r))
       = toSkippedCoupon isoNow EXPIRED_OR_INACTIVE (answerMessage (Replied r)) off"
  by (auto simp: offerResult_def persistsAsClipped_def persistsAsSkipped_def Let_def
      skippedCouponOf_def answerMessage_def isPermanent_def SkipReason_defs)


text \<open>
  Claim C2, as the code has it. The skipped records that the result loop collects are
  those of the results that are successful, skipped, not already clipped and whose reason
  (\<open>unknown\<close> when absent) is one of the five permanent reasons; a result with reason
  unknown_with_clipid, unexpected_response or cannot_clip gives no record. Before that,
  the scheduler re-labels a skipped answer of the tab whose reason is absent or
  \<open>unknown\<close> as expired_or_inactive; when the answer is also successful and not
  reported as already clipped, its result is one of those that give a record. A batch
  only appends to the stored skipped collection, and every record it adds has a permanent
  reason. For an offer of the batch whose result gives a record and whose id is not
  stored yet, the collection afterwards holds a new record with that id, and the record
  of this very result when the ids of the batch are distinct.
\<close>

theorem permanent_reasons_persist:
  "fst (snd (settle isoNow rs (nc, ns, s))) = ns @ map (skippedCouponOf isoNow) (filter persistsAsSkipped rs)
   \<and> persistsAsSkipped r =
        (success r \<and> wasSkipped r \<and> \<not> wasAlreadyClipped r \<and>
         orElse (reason r) UNKNOWN \<in> {EXPIRED_OR_INACTIVE, NOT_AVAILABLE_IN_STORE, NOT_ELIGIBLE,
           DISPLAY_PERIOD_ENDED, LIMIT_EXCEEDED})
   \<and> (reason r \<in> {Some UNKNOWN_WITH_CLIPID, Some UNEXPECTED_RESPONSE, Some CANNOT_CLIP}
        \<longrightarrow> \<not> persistsAsSkipped r)
   \<and> (wasSkipped rep \<and> (falsy (reason rep) \<or> reason rep = Some UNKNOWN) \<longrightarrow>
        reason (offerResult off (Replied rep)) = Some EXPIRED_OR_INACTIVE
        \<and> wasSkipped (offerResult off (Replied rep))
        \<and> success (offerResult off (Replied rep)) = success rep)
   \<and> (wasSkipped rep \<and> success rep \<and> \<not> wasAlreadyClipped rep
        \<and> (falsy (reason rep) \<or> reason rep = Some UNKNOWN) \<longrightarrow>
        persistsAsSkipped (offerResult off (Replied rep))
        \<and> skipReason (skippedCouponOf isoNow (offerResult off (Replied rep))) = EXPIRED_OR_INACTIVE)
   \<and> (\<forall>c \<in> set (orEmpty (skippedCoupons (storage (processBatch env offers i w)))).
         c \<in> set (orEmpty (skippedCoupons (storage w))) \<or> isPermanent (skipReason c))
   \<and> (let batch = slice offers i (min (i + BATCH_SIZE) (length offers));
           before = orEmpty (skippedCoupons (storage w));
           after = orEmpty (skippedCoupons (storage (processBatch env offers i w)));
           res = offerResult off (tabsSendMessage env off)
       in (\<exists>added. after = before @ added)
        \<and> (off \<in> set batch \<and> persistsAsSkipped res \<and> id' off \<notin> id' ` set before \<longrightarrow>
             (\<exists>c \<in> set after. id' c = id' off \<and> c \<notin> set before \<and> isPermanent (skipReason c))
             \<and> (distinct (map id' batch) \<longrightarrow>
                  skippedCouponOf (toISOString env (dateNow env i)) res \<in> set after)))"
proof -
  have a: "fst (snd (settle isoNow rs (nc, ns, s))) = ns @ map (skippedCouponOf isoNow) (filter persistsAsSkipped rs)"
    by (simp add: settle_closed_form)
  have b: "persistsAsSkipped r =
        (success r \<and> wasSkipped r \<and> \<not> wasAlreadyClipped r \<and>
         orElse (reason r) UNKNOWN \<in> {EXPIRED_OR_INACTIVE, NOT_AVAILABLE_IN_STORE, NOT_ELIGIBLE,
           DISPLAY_PERIOD_ENDED, LIMIT_EXCEEDED})"
    by (auto simp: persistsAsSkipped_def isPermanent_def)
  have c: "\<not> persistsAsSkipped r"
    if "reason r \<in> {Some UNKNOWN_WITH_CLIPID, Some UNEXPECTED_RESPONSE, Some CANNOT_CLIP}"
    using that by (auto simp: persistsAsSkipped_def isPermanent_def SkipReason_defs)
  have d: "reason (offerResult off (Replied rep)) = Some EXPIRED_OR_INACTIVE
        \<and> wasSkipped (offerResult off (Replied rep))
        \<and> success (offerResult off (Replied rep)) = success rep"
    if "wasSkipped rep \<and> (falsy (reason rep) \<or> reason rep = Some UNKNOWN)"
    using that by (auto simp: offerResult_def Let_def)
  have d': "persistsAsSkipped (offerResult off (Replied rep))
        \<and> skipReason (skippedCouponOf isoNow (offerResult off (Replied rep))) = EXPIRED_OR_INACTIVE"
    if "wasSkipped rep \<and> success rep \<and> \<not> wasAlreadyClipped rep
        \<and> (falsy (reason rep) \<or> reason rep = Some UNKNOWN)"
  proof -
    from that relabelled_result [of rep off isoNow]
    have p: "persistsAsSkipped (offerResult off (Replied rep))"
      and q: "reason (offerResult off (Replied rep)) = Some EXPIRED_OR_INACTIVE"
      by blast+
    have "skipReason (skippedCouponOf isoNow (offerResult off (Replied rep)))
        = orElse (Some EXPIRED_OR_INACTIVE) UNKNOWN"
      by (simp only: skipReason_skippedCouponOf q)
    then show ?thesis using p by (simp add: EXPIRED_OR_INACTIVE_def)
  qed
  let ?batch = "slice offers i (min (i + BATCH_SIZE) (length offers))"
  let ?iso = "toISOString env (dateNow env i)"
  let ?f = "\<lambda>off. offerResult off (tabsSendMessage env off)"
  let ?rs = "map ?f ?batch"
  let ?nc = "map offer (filter persistsAsClipped ?rs)"
  let ?ns = "map (skippedCouponOf ?iso) (filter persistsAsSkipped ?rs)"
  let ?before = "orEmpty (skippedCoupons (storage w))"
  let ?after = "orEmpty (skippedCoupons (storage (processBatch env offers i w)))"
  have e: "c \<in> set ?before \<or> isPermanent (skipReason c)" if "c \<in> set ?after" for c
  proof -
    have "c \<in> set (orEmpty (skippedCoupons (updateStoredCoupons ?iso ?nc ?ns (storage w))))"
      using that by (simp only: processBatch_coupons)
    then have "c \<in> set ?before \<union> set ?ns"
      using updateStoredCoupons_skipped by blast
    then consider "c \<in> set ?before"
      | r where "persistsAsSkipped r" "c = skippedCouponOf ?iso r"
      by auto
    then show ?thesis
    proof cases
      case 1
      then show ?thesis by simp
    next
      case 2
      then show ?thesis by (simp add: persistsAsSkipped_def)
    qed
  qed
  have after: "?after = mergeSkipped ?before ?ns"
  proof (cases "0 < length ?nc \<or> 0 < length ?ns")
    case True
    then show ?thesis by (simp only: processBatch_coupons) (simp add: updateStoredCoupons_def)
  next
    case False
    then have e: "?ns = []" by (meson length_greater_0_conv)
    have "skippedCoupons (updateStoredCoupons ?iso ?nc ?ns (storage w)) = skippedCoupons (storage w)"
      using False unfolding updateStoredCoupons_def by (simp only: if_False)
    then show ?thesis by (simp only: processBatch_coupons e mergeSkipped.simps)
  qed
  have app: "\<exists>added. ?after = ?before @ added"
    unfolding after by (rule mergeSkipped_appends)
  have ns: "?ns = map (\<lambda>off. skippedCouponOf ?iso (?f off)) (filter (\<lambda>off. persistsAsSkipped (?f off)) ?batch)"
    by (simp add: filter_map comp_def)
  have mem: "skippedCouponOf ?iso (?f off) \<in> set ?ns"
    if "off \<in> set ?batch" "persistsAsSkipped (?f off)"
    using that unfolding ns by auto
  have ex: "\<exists>c \<in> set ?after. id' c = id' off \<and> c \<notin> set ?before \<and> isPermanent (skipReason c)"
    if "off \<in> set ?batch" "persistsAsSkipped (?f off)" "id' off \<notin> id' ` set ?before"
  proof -
    have "id' (skippedCouponOf ?iso (?f off)) \<notin> id' ` set ?before" using that(3) by simp
    from mergeSkipped_new_member [OF mem [OF that(1,2)] this]
    obtain c where c0: "c \<in> set ?ns" "id' c = id' (skippedCouponOf ?iso (?f off))"
        "c \<in> set (mergeSkipped ?before ?ns)"
      by blast
    have c: "c \<in> set ?ns" "id' c = id' off" "c \<in> set ?after"
      using c0 by (simp_all only: after id_skippedCouponOf offer_offerResult)
    from c(2) that(3) have "c \<notin> set ?before" by (metis image_eqI)
    with e [OF c(3)] c show ?thesis by auto
  qed
  have dist: "skippedCouponOf ?iso (?f off) \<in> set ?after"
    if "off \<in> set ?batch" "persistsAsSkipped (?f off)" "id' off \<notin> id' ` set ?before"
       "distinct (map id' ?batch)"
  proof -
    have "map id' ?ns = map id' (filter (\<lambda>off. persistsAsSkipped (?f off)) ?batch)"
      unfolding ns by simp
    moreover have "distinct (map id' (filter (\<lambda>off. persistsAsSkipped (?f off)) ?batch))"
      using that(4) by (rule distinct_map_filter)
    ultimately have dn: "distinct (map id' ?ns)" by simp
    have "id' (skippedCouponOf ?iso (?f off)) \<notin> id' ` set ?before" using that(3) by simp
    from mergeSkipped_new_member_distinct [OF mem [OF that(1,2)] this dn]
    show ?thesis unfolding after .
  qed
  show ?thesis
    unfolding Let_def using a b c d d' e app ex dist by blast
qed

text \<open>
  The theorem of claim C2 at an answer skipped as unknown_with_clipid, at an answer
  skipped as \<open>unknown\<close>, at the first batch of the seven-offer run, and at a batch of
  one offer answered as skipped for \<open>unknown\<close>, whose record is stored as
  expired_or_inactive.
\<close>

theorem permanent_reasons_persist_witness:
  "reason (offerResult (mkOffer ''1'') (answer (respSkipped UNKNOWN_WITH_CLIPID None)))
      \<in> {Some UNKNOWN_WITH_CLIPID, Some UNEXPECTED_RESPONSE, Some CANNOT_CLIP}
   \<and> \<not> persistsAsSkipped (offerResult (mkOffer ''1'') (answer (respSkipped UNKNOWN_WITH_CLIPID None)))
   \<and> reason (offerResult (mkOffer ''1'') (answer (respSkipped UNKNOWN None))) = Some EXPIRED_OR_INACTIVE
   \<and> persistsAsSkipped (offerResult (mkOffer ''1'') (answer (respSkipped UNKNOWN None)))
   \<and> isPermanent (skipReason (toSkippedCoupon ''1000'' LIMIT_EXCEEDED ''limit reached'' (mkOffer ''5'')))
   \<and> mkOffer ''7'' \<in> set (slice [mkOffer ''7''] 0 (min (0 + BATCH_SIZE) (length [mkOffer ''7''])))
   \<and> toSkippedCoupon ''1000'' EXPIRED_OR_INACTIVE ''No specific message'' (mkOffer ''7'')
       \<in> set (orEmpty (skippedCoupons (storage (processBatch (quietEnv scenarioTab) [mkOffer ''7''] 0 initialWorld))))"
proof -
  let ?env = "quietEnv scenarioTab"
  have r: "reason (offerResult (mkOffer ''1'') (answer (respSkipped UNKNOWN_WITH_CLIPID None)))
      \<in> {Some UNKNOWN_WITH_CLIPID, Some UNEXPECTED_RESPONSE, Some CANNOT_CLIP}"
    by (simp add: offerResult_def answer_def respSkipped_def response_def MessageResponse.truncate_def
        SkipReason_defs Let_def)
  have u: "wasSkipped (MessageResponse.truncate (respSkipped UNKNOWN None))
     \<and> (falsy (reason (MessageResponse.truncate (respSkipped UNKNOWN None)))
        \<or> reason (MessageResponse.truncate (respSkipped UNKNOWN None)) = Some UNKNOWN)"
    by (simp add: respSkipped_def response_def MessageResponse.truncate_def)
  have u': "wasSkipped (MessageResponse.truncate (respSkipped UNKNOWN None))
     \<and> success (MessageResponse.truncate (respSkipped UNKNOWN None))
     \<and> \<not> wasAlreadyClipped (MessageResponse.truncate (respSkipped UNKNOWN None))
     \<and> (falsy (reason (MessageResponse.truncate (respSkipped UNKNOWN None)))
        \<or> reason (MessageResponse.truncate (respSkipped UNKNOWN None)) = Some UNKNOWN)"
    by (simp add: respSkipped_def response_def MessageResponse.truncate_def)
  note t1 = permanent_reasons_persist
      [where r = "offerResult (mkOffer ''1'') (answer (respSkipped UNKNOWN_WITH_CLIPID None))"]
  note t2 = permanent_reasons_persist
      [where rep = "MessageResponse.truncate (respSkipped UNKNOWN None)" and off = "mkOffer ''1''"]
  note t3 = permanent_reasons_persist
      [where env = ?env and offers = sevenOffers and i = 0 and w = initialWorld]
  note t4 = permanent_reasons_persist
      [where env = ?env and offers = "[mkOffer ''7'']" and i = 0 and w = initialWorld
        and off = "mkOffer ''7''", unfolded Let_def]
  have m: "toSkippedCoupon ''1000'' LIMIT_EXCEEDED ''limit reached'' (mkOffer ''5'')
      \<in> set (orEmpty (skippedCoupons (storage (processBatch ?env sevenOffers 0 initialWorld))))"
    by code_simp
  have n: "toSkippedCoupon ''1000'' LIMIT_EXCEEDED ''limit reached'' (mkOffer ''5'')
      \<notin> set (orEmpty (skippedCoupons (storage initialWorld)))"
    by (simp add: initialWorld_def emptyStorage_def)
  have b: "mkOffer ''7'' \<in> set (slice [mkOffer ''7''] 0 (min (0 + BATCH_SIZE) (length [mkOffer ''7''])))"
    by code_simp
  have p: "persistsAsSkipped (offerResult (mkOffer ''7'') (tabsSendMessage ?env (mkOffer ''7'')))"
    by code_simp
  have f: "id' (mkOffer ''7'') \<notin> id' ` set (orEmpty (skippedCoupons (storage initialWorld)))"
    by (simp add: initialWorld_def emptyStorage_def)
  have d: "distinct (map id' (slice [mkOffer ''7''] 0 (min (0 + BATCH_SIZE) (length [mkOffer ''7'']))))"
    by code_simp
  have e: "skippedCouponOf (toISOString ?env (dateNow ?env 0))
        (offerResult (mkOffer ''7'') (tabsSendMessage ?env (mkOffer ''7'')))
      = toSkippedCoupon ''1000'' EXPIRED_OR_INACTIVE ''No specific message'' (mkOffer ''7'')"
    by code_simp
  from t1 r have 1: "\<not> persistsAsSkipped (offerResult (mkOffer ''1'') (answer (respSkipped UNKNOWN_WITH_CLIPID None)))"
    by blast
  from t2 u have 2: "reason (offerResult (mkOffer ''1'') (answer (respSkipped UNKNOWN None))) = Some EXPIRED_OR_INACTIVE"
    unfolding answer_def by blast
  from t2 u' have 3: "persistsAsSkipped (offerResult (mkOffer ''1'') (answer (respSkipped UNKNOWN None)))"
    unfolding answer_def by blast
  from t3 m n have 4: "isPermanent (skipReason (toSkippedCoupon ''1000'' LIMIT_EXCEEDED ''limit reached'' (mkOffer ''5'')))"
    by blast
  note stored = t4 [THEN conjunct2, THEN conjunct2, THEN conjunct2, THEN conjunct2, THEN conjunct2,
      THEN conjunct2, THEN conjunct2]
  have hyp: "mkOffer ''7'' \<in> set (slice [mkOffer ''7''] 0 (min (0 + BATCH_SIZE) (length [mkOffer ''7''])))
      \<and> persistsAsSkipped (offerResult (mkOffer ''7'') (tabsSendMessage ?env (mkOffer ''7'')))
      \<and> id' (mkOffer ''7'') \<notin> id' ` set (orEmpty (skippedCoupons (storage initialWorld)))"
    using b p f by (intro conjI)
  from mp [OF stored hyp, THEN conjunct2, THEN mp, OF d]
  have "skippedCouponOf (toISOString ?env (dateNow ?env 0))
        (offerResult (mkOffer ''7'') (tabsSendMessage ?env (mkOffer ''7'')))
      \<in> set (orEmpty (skippedCoupons (storage (processBatch ?env [mkOffer ''7''] 0 initialWorld))))" .
  then have 5: "toSkippedCoupon ''1000'' EXPIRED_OR_INACTIVE ''No specific message'' (mkOffer ''7'')
       \<in> set (orEmpty (skippedCoupons (storage (processBatch ?env [mkOffer ''7''] 0 initialWorld))))"
    by (simp only: e)
  from r 1 2 3 4 b 5 show ?thesis by blast
qed


text \<open>
  Claim C2 as stated fails: a run of one offer that the tab reports as skipped with
  reason \<open>unknown\<close> stores a skipped record (with reason expired_or_inactive), and in a
  run of one offer reported as skipped with reason unknown_with_clipid the \<open>skipped\<close>
  counter is still 0 at the end.
\<close>

theorem unknown_answer_is_persisted:
  "skippedCoupons (storage (snd (handleStartBackgroundClipping
       (quietEnv (\<lambda>off. answer (respSkipped UNKNOWN None))) 1000 (Some [mkOffer ''1'']) initialWorld)))
     = Some [toSkippedCoupon ''1000'' EXPIRED_OR_INACTIVE ''No specific message'' (mkOffer ''1'')]
   \<and> skipped (currentStats (clippingState (snd (handleStartBackgroundClipping
       (quietEnv (\<lambda>off. answer (respSkipped UNKNOWN_WITH_CLIPID None))) 1000 (Some [mkOffer ''1'']) initialWorld))))
     = Some 0"
  by code_simp


section \<open>The seven-offer run\<close>

lemma mergeClipped_fresh:
  "distinct (map id' offs) \<Longrightarrow> id' ` set offs \<inter> id' ` set existing = {} \<Longrightarrow>
   mergeClipped now existing offs = existing @ map (toClippedCoupon now) offs"
proof (induction offs arbitrary: existing)
  case Nil
  then show ?case by simp
next
  case (Cons a offs)
  have n: "find (\<lambda>c. id' c = id' a) existing = None"
    using Cons.prems(2) by (intro find_key_None) auto
  have d: "distinct (map id' offs)" using Cons.prems(1) by simp
  have f: "id' ` set offs \<inter> id' ` set (existing @ [toClippedCoupon now a]) = {}"
    using Cons.prems by auto
  show ?case using Cons.IH [OF d f] n by simp
qed

lemma mergeSkipped_fresh:
  "distinct (map id' scs) \<Longrightarrow> id' ` set scs \<inter> id' ` set existing = {} \<Longrightarrow>
   mergeSkipped existing scs = existing @ scs"
proof (induction scs arbitrary: existing)
  case Nil
  then show ?case by simp
next
  case (Cons a scs)
  have n: "find (\<lambda>c. id' c = id' a) existing = None"
    using Cons.prems(2) by (intro find_key_None) auto
  have d: "distinct (map id' scs)" using Cons.prems(1) by simp
  have f: "id' ` set scs \<inter> id' ` set (existing @ [a]) = {}"
    using Cons.prems by auto
  show ?case using Cons.IH [OF d f] n by simp
qed

lemma updateStoredCoupons_fresh:
  assumes "distinct (map id' nc)" "id' ` set nc \<inter> id' ` set (orEmpty (clippedCoupons st)) = {}"
    and "distinct (map id' ns)" "id' ` set ns \<inter> id' ` set (orEmpty (skippedCoupons st)) = {}"
  shows "orEmpty (clippedCoupons (updateStoredCoupons isoNow nc ns st))
           = orEmpty (clippedCoupons st) @ map (toClippedCoupon isoNow) nc"
    and "orEmpty (skippedCoupons (updateStoredCoupons isoNow nc ns st))
           = orEmpty (skippedCoupons st) @ ns"
  using mergeClipped_fresh [OF assms(1,2), of isoNow] mergeSkipped_fresh [OF assms(3,4)]
  by (simp_all add: updateStoredCoupons_def)

lemma deliverStop_none: "stopMessage env i = None \<Longrightarrow> deliverStop env i w = w"
  by (simp add: deliverStop_def)

lemma answeredClipped_result:
  "answeredClipped rep \<Longrightarrow>
   persistsAsClipped (offerResult off rep) \<and> \<not> persistsAsSkipped (offerResult off rep)"
  by (auto simp: answeredClipped_def offerResult_def persistsAsClipped_def persistsAsSkipped_def Let_def
      split: tab_reply.splits)

lemma answeredAlreadyClipped_result:
  "answeredAlreadyClipped rep \<Longrightarrow>
   persistsAsClipped (offerResult off rep) \<and> \<not> persistsAsSkipped (offerResult off rep)"
  by (auto simp: answeredAlreadyClipped_def offerResult_def persistsAsClipped_def persistsAsSkipped_def
      Let_def split: tab_reply.splits)

lemma answeredFailed_result:
  "answeredFailed rep \<Longrightarrow>
   \<not> persistsAsClipped (offerResult off rep) \<and> \<not> persistsAsSkipped (offerResult off rep)"
  by (auto simp: answeredFailed_def offerResult_def persistsAsClipped_def persistsAsSkipped_def Let_def
      split: tab_reply.splits)

lemma answeredSkipped_limit_result:
  "answeredSkipped LIMIT_EXCEEDED rep \<Longrightarrow>
   \<not> persistsAsClipped (offerResult off rep) \<and> persistsAsSkipped (offerResult off rep)
   \<and> skippedCouponOf isoNow (offerResult off rep)
       = toSkippedCoupon isoNow LIMIT_EXCEEDED (answerMessage rep) off"
  by (auto simp: answeredSkipped_def offerResult_def persistsAsClipped_def persistsAsSkipped_def Let_def
      skippedCouponOf_def answerMessage_def isPermanent_def SkipReason_defs split: tab_reply.splits)

lemma answeredSkipped_unknown_result:
  "answeredSkipped UNKNOWN rep \<Longrightarrow>
   \<not> persistsAsClipped (offerResult off rep) \<and> persistsAsSkipped (offerResult off rep)
   \<and> skippedCouponOf isoNow (offerResult off rep)
       = toSkippedCoupon isoNow EXPIRED_OR_INACTIVE (answerMessage rep) off"
  using relabelled_result [of _ off isoNow]
  by (auto simp: answeredSkipped_def split: tab_reply.splits)

lemma startedWorld_coupons [simp]:
  "clippedCoupons (storage (startedWorld env now offers w)) = clippedCoupons (storage w)"
  "skippedCoupons (storage (startedWorld env now offers w)) = skippedCoupons (storage w)"
  by (simp_all add: startedWorld_def Let_def)

lemma processOffers_coupons:
  "clippedCoupons (storage (processOffersInBackground env offers w))
     = clippedCoupons (storage (batchLoop env offers 0 w))"
  "skippedCoupons (storage (processOffersInBackground env offers w))
     = skippedCoupons (storage (batchLoop env offers 0 w))"
  by (simp_all add: processOffersInBackground_def saveClippingSession_def Let_def)

lemma processBatch_gain:
  fixes env offers i w
  defines "batch \<equiv> slice offers i (min (i + BATCH_SIZE) (length offers))"
  defines "isoNow \<equiv> toISOString env (dateNow env i)"
  defines "nc \<equiv> filter (\<lambda>off. persistsAsClipped (offerResult off (tabsSendMessage env off))) batch"
  defines "ns \<equiv> filter (\<lambda>off. persistsAsSkipped (offerResult off (tabsSendMessage env off))) batch"
  assumes "distinct (map id' batch)"
    and "id' ` set nc \<inter> id' ` set (orEmpty (clippedCoupons (storage w))) = {}"
    and "id' ` set ns \<inter> id' ` set (orEmpty (skippedCoupons (storage w))) = {}"
  shows "orEmpty (clippedCoupons (storage (processBatch env offers i w)))
           = orEmpty (clippedCoupons (storage w)) @ map (toClippedCoupon isoNow) nc"
    and "orEmpty (skippedCoupons (storage (processBatch env offers i w)))
           = orEmpty (skippedCoupons (storage w))
             @ map (\<lambda>off. skippedCouponOf isoNow (offerResult off (tabsSendMessage env off))) ns"
proof -
  let ?f = "\<lambda>off. offerResult off (tabsSendMessage env off)"
  have nc: "map offer (filter persistsAsClipped (map ?f batch)) = nc"
    by (simp add: nc_def filter_map comp_def)
  have ns: "map (skippedCouponOf isoNow) (filter persistsAsSkipped (map ?f batch))
      = map (\<lambda>off. skippedCouponOf isoNow (?f off)) ns"
    by (simp add: ns_def filter_map comp_def)
  have d1: "distinct (map id' nc)"
    unfolding nc_def using assms(5) by (rule distinct_map_filter)
  have d2': "distinct (map id' ns)"
    unfolding ns_def using assms(5) by (rule distinct_map_filter)
  have ids: "map id' (map (\<lambda>off. skippedCouponOf isoNow (?f off)) ns) = map id' ns"
    by simp
  have d2: "distinct (map id' (map (\<lambda>off. skippedCouponOf isoNow (?f off)) ns))"
    using d2' by (simp only: ids)
  have f2: "id' ` set (map (\<lambda>off. skippedCouponOf isoNow (?f off)) ns)
      \<inter> id' ` set (orEmpty (skippedCoupons (storage w))) = {}"
  proof -
    have "id' ` set (map (\<lambda>off. skippedCouponOf isoNow (?f off)) ns) = id' ` set ns"
      by (simp add: image_image)
    with assms(7) show ?thesis by simp
  qed
  note u = updateStoredCoupons_fresh [OF d1 assms(6) d2 f2, of isoNow]
  show "orEmpty (clippedCoupons (storage (processBatch env offers i w)))
           = orEmpty (clippedCoupons (storage w)) @ map (toClippedCoupon isoNow) nc"
    using u(1) by (simp only: processBatch_coupons batch_def [symmetric] isoNow_def [symmetric] nc ns)
  show "orEmpty (skippedCoupons (storage (processBatch env offers i w)))
           = orEmpty (skippedCoupons (storage w))
             @ map (\<lambda>off. skippedCouponOf isoNow (?f off)) ns"
    using u(2) by (simp only: processBatch_coupons batch_def [symmetric] isoNow_def [symmetric] nc ns)
qed


text \<open>
  Claim C3, as the code has it. Seven offers with distinct ids, none of them stored yet,
  are processed in two batches, the first five and then the last two, when no stop
  message arrives. With the answers clipped (offers 1 to 3), already clipped (4) and
  skipped for limit_exceeded (5) in the first batch, failed (6) and skipped for
  \<open>unknown\<close> (7) in the second, the run ends with \<open>total = 7\<close> and \<open>processed = 7\<close>;
  the stored clipped collection gains the offers 1 to 4, and the stored skipped collection
  gains exactly two records, the limit_exceeded one and the \<open>unknown\<close> one re-labelled
  expired_or_inactive. This holds for every such offers, every clock and every storage.
\<close>

theorem seven_offer_run:
  assumes offers: "offers = [o1, o2, o3, o4, o5, o6, o7]"
    and dist: "distinct (map id' offers)"
    and freshC: "id' ` set offers \<inter> id' ` set (orEmpty (clippedCoupons (storage w))) = {}"
    and freshS: "id' ` set offers \<inter> id' ` set (orEmpty (skippedCoupons (storage w))) = {}"
    and quiet: "\<forall>j. stopMessage env j = None"
    and a1: "answeredClipped (tabsSendMessage env o1)"
    and a2: "answeredClipped (tabsSendMessage env o2)"
    and a3: "answeredClipped (tabsSendMessage env o3)"
    and a4: "answeredAlreadyClipped (tabsSendMessage env o4)"
    and a5: "answeredSkipped LIMIT_EXCEEDED (tabsSendMessage env o5)"
    and a6: "answeredFailed (tabsSendMessage env o6)"
    and a7: "answeredSkipped UNKNOWN (tabsSendMessage env o7)"
  shows "slice offers 0 (min (0 + BATCH_SIZE) (length offers)) = [o1, o2, o3, o4, o5]
     \<and> slice offers 5 (min (5 + BATCH_SIZE) (length offers)) = [o6, o7]
     \<and> batchLoop env offers 0 (startedWorld env now offers w)
         = processBatch env offers 5 (processBatch env offers 0 (startedWorld env now offers w))
     \<and> ClippingStats.total (currentStats (clippingState
           (snd (handleStartBackgroundClipping env now (Some offers) w)))) = 7
     \<and> processed (currentStats (clippingState
           (snd (handleStartBackgroundClipping env now (Some offers) w)))) = 7
     \<and> orEmpty (clippedCoupons (storage (snd (handleStartBackgroundClipping env now (Some offers) w))))
         = orEmpty (clippedCoupons (storage w))
           @ map (toClippedCoupon (toISOString env (dateNow env 0))) [o1, o2, o3, o4]
     \<and> orEmpty (skippedCoupons (storage (snd (handleStartBackgroundClipping env now (Some offers) w))))
         = orEmpty (skippedCoupons (storage w))
           @ [toSkippedCoupon (toISOString env (dateNow env 0)) LIMIT_EXCEEDED
                (answerMessage (tabsSendMessage env o5)) o5,
              toSkippedCoupon (toISOString env (dateNow env 5)) EXPIRED_OR_INACTIVE
                (answerMessage (tabsSendMessage env o7)) o7]"
proof -
  let ?f = "\<lambda>off. offerResult off (tabsSendMessage env off)"
  let ?w0 = "startedWorld env now offers w"
  let ?w1 = "processBatch env offers 0 ?w0"
  let ?w2 = "processBatch env offers 5 ?w1"
  let ?iso0 = "toISOString env (dateNow env 0)"
  let ?iso5 = "toISOString env (dateNow env 5)"
  let ?cb = "orEmpty (clippedCoupons (storage w))"
  let ?sb = "orEmpty (skippedCoupons (storage w))"
  have b1: "slice offers 0 (min (0 + BATCH_SIZE) (length offers)) = [o1, o2, o3, o4, o5]"
    by (simp add: offers slice_def BATCH_SIZE_def)
  have b2: "slice offers 5 (min (5 + BATCH_SIZE) (length offers)) = [o6, o7]"
    by (simp add: offers slice_def BATCH_SIZE_def)
  have len: "length offers = 7" by (simp add: offers)
  have q: "stopMessage env j = None" for j using quiet by simp
  have act0: "isActive (clippingState ?w0)" by (simp add: startedWorld_state)
  have act1: "isActive (clippingState ?w1)" using act0 by (simp add: processBatch_state)
  have loop: "batchLoop env offers 0 ?w0 = ?w2"
  proof -
    have "batchLoop env offers 0 ?w0 = batchLoop env offers (0 + BATCH_SIZE) ?w1"
      using act0 len by (simp add: batchLoop_step deliverStop_none q)
    also have "\<dots> = batchLoop env offers 5 ?w1" by (simp add: BATCH_SIZE_def)
    also have "\<dots> = batchLoop env offers (5 + BATCH_SIZE) ?w2"
      using act1 len by (simp add: batchLoop_step deliverStop_none q)
    also have "\<dots> = ?w2" using len by (simp add: batchLoop_done BATCH_SIZE_def)
    finally show ?thesis .
  qed
  have run: "currentStats (clippingState (snd (handleStartBackgroundClipping env now (Some offers) w)))
      = currentStats (clippingState ?w2)"
    by (simp add: handleStartBackgroundClipping_def Let_def processOffers_stats loop)
  have tot: "ClippingStats.total (currentStats (clippingState ?w2)) = 7"
    by (simp add: processBatch_state startedWorld_state len)
  have pro: "processed (currentStats (clippingState ?w2)) = 7"
    by (simp add: processBatch_state startedWorld_state len BATCH_SIZE_def)
  note r1 = answeredClipped_result [OF a1, of o1] and r2 = answeredClipped_result [OF a2, of o2]
    and r3 = answeredClipped_result [OF a3, of o3] and r4 = answeredAlreadyClipped_result [OF a4, of o4]
    and r5 = answeredSkipped_limit_result [OF a5, of o5 ?iso0] and r6 = answeredFailed_result [OF a6, of o6]
    and r7 = answeredSkipped_unknown_result [OF a7, of o7 ?iso5]
  have nc1: "filter (\<lambda>off. persistsAsClipped (?f off)) [o1, o2, o3, o4, o5] = [o1, o2, o3, o4]"
    using r1 r2 r3 r4 r5 by simp
  have ns1: "filter (\<lambda>off. persistsAsSkipped (?f off)) [o1, o2, o3, o4, o5] = [o5]"
    using r1 r2 r3 r4 r5 by simp
  have nc2: "filter (\<lambda>off. persistsAsClipped (?f off)) [o6, o7] = []"
    using r6 r7 by simp
  have ns2: "filter (\<lambda>off. persistsAsSkipped (?f off)) [o6, o7] = [o7]"
    using r6 r7 by simp
  have d1: "distinct (map id' (slice offers 0 (min (0 + BATCH_SIZE) (length offers))))"
  proof -
    have "distinct (map id' [o1, o2, o3, o4, o5])" using dist by (simp add: offers)
    then show ?thesis by (simp only: b1)
  qed
  have d2: "distinct (map id' (slice offers 5 (min (5 + BATCH_SIZE) (length offers))))"
  proof -
    have "distinct (map id' [o6, o7])" using dist by (simp add: offers)
    then show ?thesis by (simp only: b2)
  qed
  have g1: "orEmpty (clippedCoupons (storage ?w1)) = ?cb @ map (toClippedCoupon ?iso0) [o1, o2, o3, o4]"
    and h1: "orEmpty (skippedCoupons (storage ?w1))
        = ?sb @ [toSkippedCoupon ?iso0 LIMIT_EXCEEDED (answerMessage (tabsSendMessage env o5)) o5]"
  proof -
    have fc: "id' ` set (filter (\<lambda>off. persistsAsClipped (?f off))
          (slice offers 0 (min (0 + BATCH_SIZE) (length offers))))
        \<inter> id' ` set (orEmpty (clippedCoupons (storage ?w0))) = {}"
      using freshC by (simp only: b1 nc1 startedWorld_coupons) (auto simp: offers)
    have fs: "id' ` set (filter (\<lambda>off. persistsAsSkipped (?f off))
          (slice offers 0 (min (0 + BATCH_SIZE) (length offers))))
        \<inter> id' ` set (orEmpty (skippedCoupons (storage ?w0))) = {}"
      using freshS by (simp only: b1 ns1 startedWorld_coupons) (auto simp: offers)
    note g = processBatch_gain [OF d1 fc fs]
    show "orEmpty (clippedCoupons (storage ?w1)) = ?cb @ map (toClippedCoupon ?iso0) [o1, o2, o3, o4]"
      using g(1) by (simp only: b1 nc1 startedWorld_coupons)
    show "orEmpty (skippedCoupons (storage ?w1))
        = ?sb @ [toSkippedCoupon ?iso0 LIMIT_EXCEEDED (answerMessage (tabsSendMessage env o5)) o5]"
      using g(2) r5 by (simp only: b1 ns1 startedWorld_coupons) simp
  qed
  have g2: "orEmpty (clippedCoupons (storage ?w2)) = ?cb @ map (toClippedCoupon ?iso0) [o1, o2, o3, o4]"
    and h2: "orEmpty (skippedCoupons (storage ?w2))
        = ?sb @ [toSkippedCoupon ?iso0 LIMIT_EXCEEDED (answerMessage (tabsSendMessage env o5)) o5,
                 toSkippedCoupon ?iso5 EXPIRED_OR_INACTIVE (answerMessage (tabsSendMessage env o7)) o7]"
  proof -
    have fc: "id' ` set (filter (\<lambda>off. persistsAsClipped (?f off))
          (slice offers 5 (min (5 + BATCH_SIZE) (length offers))))
        \<inter> id' ` set (orEmpty (clippedCoupons (storage ?w1))) = {}"
      by (simp only: b2 nc2) simp
    have "id' o7 \<notin> id' ` set ?sb" using freshS by (auto simp: offers)
    moreover have "id' o7 \<noteq> id' o5" using dist by (auto simp: offers)
    ultimately have fs: "id' ` set (filter (\<lambda>off. persistsAsSkipped (?f off))
          (slice offers 5 (min (5 + BATCH_SIZE) (length offers))))
        \<inter> id' ` set (orEmpty (skippedCoupons (storage ?w1))) = {}"
      by (simp only: b2 ns2 h1) (simp add: toSkippedCoupon_def CouponOffer.extend_def)
    note g = processBatch_gain [OF d2 fc fs]
    show "orEmpty (clippedCoupons (storage ?w2)) = ?cb @ map (toClippedCoupon ?iso0) [o1, o2, o3, o4]"
      using g(1) by (simp only: b2 nc2 g1) simp
    show "orEmpty (skippedCoupons (storage ?w2))
        = ?sb @ [toSkippedCoupon ?iso0 LIMIT_EXCEEDED (answerMessage (tabsSendMessage env o5)) o5,
                 toSkippedCoupon ?iso5 EXPIRED_OR_INACTIVE (answerMessage (tabsSendMessage env o7)) o7]"
      using g(2) r7 by (simp only: b2 ns2 h1) simp
  qed
  have fin: "clippedCoupons (storage (snd (handleStartBackgroundClipping env now (Some offers) w)))
        = clippedCoupons (storage ?w2)"
      "skippedCoupons (storage (snd (handleStartBackgroundClipping env now (Some offers) w)))
        = skippedCoupons (storage ?w2)"
    by (simp_all add: handleStartBackgroundClipping_def Let_def processOffers_coupons loop)
  show ?thesis
    using b1 b2 loop tot pro g2 h2 by (simp only: run fin simp_thms)
qed

text \<open>
  The theorem of claim C3 at the seven-offer run, started on a storage that already
  holds a clipped offer 8 and a skipped offer 9.
\<close>

theorem seven_offer_run_witness:
  "distinct (map id' sevenOffers)
   \<and> answeredSkipped UNKNOWN (tabsSendMessage (quietEnv scenarioTab) (mkOffer ''7''))
   \<and> processed (currentStats (clippingState
         (snd (handleStartBackgroundClipping (quietEnv scenarioTab) 1000 (Some sevenOffers) stockedWorld)))) = 7
   \<and> orEmpty (clippedCoupons (storage
         (snd (handleStartBackgroundClipping (quietEnv scenarioTab) 1000 (Some sevenOffers) stockedWorld))))
       = [clippedAt ''8'' ''2026-01-01T00:00:00.000Z'', clippedAt ''1'' ''1000'', clippedAt ''2'' ''1000'',
          clippedAt ''3'' ''1000'', clippedAt ''4'' ''1000'']
   \<and> orEmpty (skippedCoupons (storage
         (snd (handleStartBackgroundClipping (quietEnv scenarioTab) 1000 (Some sevenOffers) stockedWorld))))
       = [skippedAt ''9'' ''2026-01-01T00:00:00.000Z'',
          toSkippedCoupon ''1000'' LIMIT_EXCEEDED ''limit reached'' (mkOffer ''5''),
          toSkippedCoupon ''1005'' EXPIRED_OR_INACTIVE ''No specific message'' (mkOffer ''7'')]"
proof -
  let ?env = "quietEnv scenarioTab"
  have offers: "sevenOffers = [mkOffer ''1'', mkOffer ''2'', mkOffer ''3'', mkOffer ''4'', mkOffer ''5'',
      mkOffer ''6'', mkOffer ''7'']"
    by code_simp
  have dist: "distinct (map id' sevenOffers)" by code_simp
  have cb: "orEmpty (clippedCoupons (storage stockedWorld)) = [clippedAt ''8'' ''2026-01-01T00:00:00.000Z'']"
    and sb: "orEmpty (skippedCoupons (storage stockedWorld)) = [skippedAt ''9'' ''2026-01-01T00:00:00.000Z'']"
    by (simp_all add: stockedWorld_def)
  have freshC: "id' ` set sevenOffers \<inter> id' ` set (orEmpty (clippedCoupons (storage stockedWorld))) = {}"
    unfolding cb offers by (simp add: mkOffer_def clippedAt_def)
  have freshS: "id' ` set sevenOffers \<inter> id' ` set (orEmpty (skippedCoupons (storage stockedWorld))) = {}"
    unfolding sb offers by (simp add: mkOffer_def skippedAt_def toSkippedCoupon_def CouponOffer.extend_def)
  have quiet: "\<forall>j. stopMessage ?env j = None" by (simp add: quietEnv_def)
  have a1: "answeredClipped (tabsSendMessage ?env (mkOffer ''1''))"
    and a2: "answeredClipped (tabsSendMessage ?env (mkOffer ''2''))"
    and a3: "answeredClipped (tabsSendMessage ?env (mkOffer ''3''))"
    and a4: "answeredAlreadyClipped (tabsSendMessage ?env (mkOffer ''4''))"
    and a5: "answeredSkipped LIMIT_EXCEEDED (tabsSendMessage ?env (mkOffer ''5''))"
    and a6: "answeredFailed (tabsSendMessage ?env (mkOffer ''6''))"
    and a7: "answeredSkipped UNKNOWN (tabsSendMessage ?env (mkOffer ''7''))"
    by code_simp+
  have m5: "answerMessage (tabsSendMessage ?env (mkOffer ''5'')) = ''limit reached''"
    and m7: "answerMessage (tabsSendMessage ?env (mkOffer ''7'')) = ''No specific message''"
    and i0: "toISOString ?env (dateNow ?env 0) = ''1000''"
    and i5: "toISOString ?env (dateNow ?env 5) = ''1005''"
    by code_simp+
  note t = seven_offer_run [OF offers dist freshC freshS quiet a1 a2 a3 a4 a5 a6 a7, of 1000]
  from t dist a7 show ?thesis
    by (simp only: cb sb m5 m7 i0 i5 clippedAt_def list.map append.simps simp_thms)
qed

text \<open>
  Claim C3 as stated fails. Its outcome list for the first batch names seven outcomes
  for five offers; with three clipped offers in place of five, the run on an empty
  storage ends with two stored skipped records, not one: the limit_exceeded record and
  the record of the offer skipped for \<open>unknown\<close>, stored as expired_or_inactive. (The
  four outcome counters are all 0 at the end.)
\<close>

theorem scenario_refutes_claimed_totals:
  "map skipReason (orEmpty (skippedCoupons (storage (snd (handleStartBackgroundClipping
       (quietEnv scenarioTab) 1000 (Some sevenOffers) initialWorld)))))
     = [LIMIT_EXCEEDED, EXPIRED_OR_INACTIVE]
   \<and> map id' (orEmpty (skippedCoupons (storage (snd (handleStartBackgroundClipping
       (quietEnv scenarioTab) 1000 (Some sevenOffers) initialWorld)))))
     = [''5'', ''7'']
   \<and> length (orEmpty (skippedCoupons (storage (snd (handleStartBackgroundClipping
       (quietEnv scenarioTab) 1000 (Some sevenOffers) initialWorld))))) = 2
   \<and> currentStats (clippingState (snd (handleStartBackgroundClipping (quietEnv scenarioTab) 1000
       (Some sevenOffers) initialWorld)))
     = \<lparr> total = 7, processed = 7, clipped = Some 0, alreadyClipped = Some 0, skipped = Some 0,
         failed = Some 0 \<rparr>"
  by code_simp


section \<open>Which clipped results are stored\<close>


lemma toClippedCoupon_fields:
  "clippedDate (toClippedCoupon isoNow off) = isoNow"
  "status (toClippedCoupon isoNow off) = ''clipped''"
  "clipTs (toClippedCoupon isoNow off) = clipTs off"
  "CouponOffer.truncate (toClippedCoupon isoNow off) = off \<lparr> status := ''clipped'' \<rparr>"
  by (simp_all add: toClippedCoupon_def CouponOffer.extend_def CouponOffer.truncate_def
      ClippedCoupon.fields_def)

lemma mergeClipped_keeps: "set existing \<subseteq> set (mergeClipped now existing offs)"
  using mergeClipped_appends [of now existing offs] by auto

lemma mergeClipped_new_member:
  "off \<in> set offs \<Longrightarrow> id' off \<notin> id' ` set existing \<Longrightarrow>
   \<exists>off' \<in> set offs. id' off' = id' off \<and> toClippedCoupon now off' \<in> set (mergeClipped now existing offs)"
proof (induction offs arbitrary: existing)
  case Nil
  then show ?case by simp
next
  case (Cons a offs)
  show ?case
  proof (cases "id' a = id' off")
    case True
    with Cons.prems(2) have "find (\<lambda>c. id' c = id' a) existing = None"
      by (simp add: find_key_None)
    moreover have "toClippedCoupon now a \<in> set (mergeClipped now (existing @ [toClippedCoupon now a]) offs)"
      using mergeClipped_keeps [of "existing @ [toClippedCoupon now a]" now offs] by auto
    ultimately have "toClippedCoupon now a \<in> set (mergeClipped now existing (a # offs))" by simp
    with True show ?thesis by auto
  next
    case False
    with Cons.prems(1) have mem: "off \<in> set offs" by auto
    show ?thesis
    proof (cases "find (\<lambda>c. id' c = id' a) existing")
      case None
      have "id' off \<notin> id' ` set (existing @ [toClippedCoupon now a])"
        using Cons.prems(2) False by auto
      from Cons.IH [OF mem this] None show ?thesis by auto
    next
      case (Some c)
      from Cons.IH [OF mem Cons.prems(2)] Some show ?thesis by auto
    qed
  qed
qed

lemma mergeClipped_new_member_distinct:
  assumes "off \<in> set offs" "id' off \<notin> id' ` set existing" "distinct (map id' offs)"
  shows "toClippedCoupon now off \<in> set (mergeClipped now existing offs)"
proof -
  obtain off' where o: "off' \<in> set offs" "id' off' = id' off"
      "toClippedCoupon now off' \<in> set (mergeClipped now existing offs)"
    using mergeClipped_new_member [OF assms(1,2)] by blast
  have "inj_on id' (set offs)" using assms(3) by (simp add: distinct_map)
  with o assms(1) have "off' = off" by (auto dest: inj_onD)
  with o show ?thesis by simp
qed

text \<open>
  Claim C10. A batch only appends to the stored clipped collection. For an offer of the
  batch whose result is successful and not skipped (already clipped or not) and whose id
  is not stored yet, the collection afterwards holds a record made from an offer of the
  batch with that id, and from this very offer when the ids of the batch are distinct.
  The record is the offer with \<open>status\<close> set to \<open>clipped\<close> and \<open>clippedDate\<close> set to the
  clock reading of the batch; the provider's clip time \<open>clipTs\<close> is left as it was.
\<close>

theorem clipped_results_are_stored:
  "(let batch = slice offers i (min (i + BATCH_SIZE) (length offers));
        isoNow = toISOString env (dateNow env i);
        before = orEmpty (clippedCoupons (storage w));
        after = orEmpty (clippedCoupons (storage (processBatch env offers i w)))
    in (\<exists>added. after = before @ added)
     \<and> (off \<in> set batch \<and> success (offerResult off (tabsSendMessage env off))
          \<and> \<not> wasSkipped (offerResult off (tabsSendMessage env off))
          \<and> id' off \<notin> id' ` set before \<longrightarrow>
          (\<exists>off' \<in> set batch. id' off' = id' off \<and> toClippedCoupon isoNow off' \<in> set after)
          \<and> (distinct (map id' batch) \<longrightarrow> toClippedCoupon isoNow off \<in> set after))
     \<and> clippedDate (toClippedCoupon isoNow off) = isoNow
     \<and> status (toClippedCoupon isoNow off) = ''clipped''
     \<and> clipTs (toClippedCoupon isoNow off) = clipTs off
     \<and> CouponOffer.truncate (toClippedCoupon isoNow off) = off \<lparr> status := ''clipped'' \<rparr>)"
proof -
  let ?batch = "slice offers i (min (i + BATCH_SIZE) (length offers))"
  let ?iso = "toISOString env (dateNow env i)"
  let ?rs = "map (\<lambda>off. offerResult off (tabsSendMessage env off)) ?batch"
  let ?nc = "map offer (filter persistsAsClipped ?rs)"
  let ?ns = "map (skippedCouponOf ?iso) (filter persistsAsSkipped ?rs)"
  let ?before = "orEmpty (clippedCoupons (storage w))"
  let ?after = "orEmpty (clippedCoupons (storage (processBatch env offers i w)))"
  have nc: "?nc = filter (\<lambda>off. persistsAsClipped (offerResult off (tabsSendMessage env off))) ?batch"
    by (simp add: filter_map comp_def)
  have after: "?after = mergeClipped ?iso ?before ?nc"
  proof (cases "0 < length ?nc \<or> 0 < length ?ns")
    case True
    then show ?thesis by (simp only: processBatch_coupons) (simp add: updateStoredCoupons_def)
  next
    case False
    then have e: "?nc = []" by (meson length_greater_0_conv)
    have "clippedCoupons (updateStoredCoupons ?iso ?nc ?ns (storage w)) = clippedCoupons (storage w)"
      using False unfolding updateStoredCoupons_def by (simp only: if_False)
    then show ?thesis by (simp only: processBatch_coupons e mergeClipped.simps)
  qed
  have app: "\<exists>added. ?after = ?before @ added"
    unfolding after by (rule mergeClipped_appends)
  have mem: "off \<in> set ?nc"
    if "off \<in> set ?batch" "success (offerResult off (tabsSendMessage env off))"
       "\<not> wasSkipped (offerResult off (tabsSendMessage env off))"
    using that unfolding nc by (simp add: persistsAsClipped_def)
  have sub: "set ?nc \<subseteq> set ?batch" unfolding nc by auto
  have ex: "\<exists>off' \<in> set ?batch. id' off' = id' off \<and> toClippedCoupon ?iso off' \<in> set ?after"
    if "off \<in> set ?batch" "success (offerResult off (tabsSendMessage env off))"
       "\<not> wasSkipped (offerResult off (tabsSendMessage env off))" "id' off \<notin> id' ` set ?before"
    using mergeClipped_new_member [OF mem [OF that(1,2,3)] that(4), of ?iso] sub
    unfolding after by blast
  have dist: "toClippedCoupon ?iso off \<in> set ?after"
    if "off \<in> set ?batch" "success (offerResult off (tabsSendMessage env off))"
       "\<not> wasSkipped (offerResult off (tabsSendMessage env off))" "id' off \<notin> id' ` set ?before"
       "distinct (map id' ?batch)"
  proof -
    have "distinct (map id' ?nc)"
      unfolding nc using that(5) by (rule distinct_map_filter)
    from mergeClipped_new_member_distinct [OF mem [OF that(1,2,3)] that(4) this]
    show ?thesis unfolding after .
  qed
  show ?thesis
    unfolding Let_def using app ex dist toClippedCoupon_fields [of ?iso off] by blast
qed

text \<open>The theorem of claim C10 at the already clipped offer of the seven-offer run.\<close>

theorem clipped_results_are_stored_witness:
  "mkOffer ''4'' \<in> set (slice sevenOffers 0 (min (0 + BATCH_SIZE) (length sevenOffers)))
   \<and> wasAlreadyClipped (offerResult (mkOffer ''4'') (tabsSendMessage (quietEnv scenarioTab) (mkOffer ''4'')))
   \<and> toClippedCoupon ''1000'' (mkOffer ''4'')
       \<in> set (orEmpty (clippedCoupons (storage (processBatch (quietEnv scenarioTab) sevenOffers 0 initialWorld))))"
proof -
  have a: "mkOffer ''4'' \<in> set (slice sevenOffers 0 (min (0 + BATCH_SIZE) (length sevenOffers)))"
    by code_simp
  have b: "success (offerResult (mkOffer ''4'') (tabsSendMessage (quietEnv scenarioTab) (mkOffer ''4'')))"
    by code_simp
  have c: "\<not> wasSkipped (offerResult (mkOffer ''4'') (tabsSendMessage (quietEnv scenarioTab) (mkOffer ''4'')))"
    by code_simp
  have d: "id' (mkOffer ''4'') \<notin> id' ` set (orEmpty (clippedCoupons (storage initialWorld)))"
    by (simp add: initialWorld_def emptyStorage_def)
  have e: "distinct (map id' (slice sevenOffers 0 (min (0 + BATCH_SIZE) (length sevenOffers))))"
    by code_simp
  have f: "wasAlreadyClipped (offerResult (mkOffer ''4'') (tabsSendMessage (quietEnv scenarioTab) (mkOffer ''4'')))"
    by code_simp
  have g: "toISOString (quietEnv scenarioTab) (dateNow (quietEnv scenarioTab) 0) = ''1000''"
    by code_simp
  note t = clipped_results_are_stored [where off = "mkOffer ''4''" and offers = sevenOffers and i = 0
      and env = "quietEnv scenarioTab" and w = initialWorld, unfolded Let_def g]
  from t a b c d e have "toClippedCoupon ''1000'' (mkOffer ''4'')
       \<in> set (orEmpty (clippedCoupons (storage (processBatch (quietEnv scenarioTab) sevenOffers 0 initialWorld))))"
    by blast
  with a f show ?thesis by blast
qed


section \<open>The startup sweep and the session history\<close>


lemma filter_same_length: "length (filter P xs) = length xs \<Longrightarrow> filter P xs = xs"
  by (metis filter_True length_filter_less less_irrefl_nat)

lemma sweepClipped_coupons:
  "clippedCoupons (sweepClipped env now st) = map_option (filter (retained env now)) (clippedCoupons st)"
  by (auto simp: sweepClipped_def Let_def filter_same_length split: option.splits)

lemma sweepClipped_sessions [simp]:
  "clippingSessions (sweepClipped env now st) = clippingSessions st"
  by (simp add: sweepClipped_def Let_def split: option.splits)

lemma sweepSessions_coupons [simp]:
  "clippedCoupons (sweepSessions st) = clippedCoupons st"
  by (simp add: sweepSessions_def split: option.splits)

text \<open>
  Claim C8, as the code has it. The startup sweep keeps exactly the clipped records that
  have no \<open>clippedDate\<close> or whose \<open>clippedDate\<close> is a valid date later than the cutoff,
  which is 90 days (7776000000 ms) before the startup. A record dated at the cutoff or
  earlier is removed, and so is a record whose \<open>clippedDate\<close> is not a valid date.
\<close>

theorem retention_sweep:
  "(clippedCoupons st = None \<longrightarrow> clippedCoupons (onStartup env now st) = None)
   \<and> (clippedCoupons st = Some cs \<longrightarrow>
         clippedCoupons (onStartup env now st) = Some (filter (retained env now) cs))
   \<and> retained env now c =
        (clippedDate c = [] \<or> (\<exists>t. dateParse env (clippedDate c) = Some t \<and> now - 7776000000 < t))"
  by (auto simp: onStartup_def sweepClipped_coupons retained_def DATA_RETENTION_DAYS_def
      split: option.splits)

text \<open>
  The theorem of claim C8 at three records: one dated exactly 90 days before the startup
  (removed), one dated a millisecond later (kept) and one without date (kept).
\<close>

theorem retention_sweep_witness:
  "clippedCoupons emptyStorage = None
   \<and> clippedCoupons (onStartup sweepEnv 1775001600000 emptyStorage) = None
   \<and> clippedCoupons (emptyStorage \<lparr> clippedCoupons := Some
       [clippedAt ''1'' ''2026-01-01T00:00:00.000Z'', clippedAt ''2'' ''2026-01-01T00:00:00.001Z'',
        clippedAt ''3'' []] \<rparr>)
     = Some [clippedAt ''1'' ''2026-01-01T00:00:00.000Z'', clippedAt ''2'' ''2026-01-01T00:00:00.001Z'',
        clippedAt ''3'' []]
   \<and> clippedCoupons (onStartup sweepEnv 1775001600000 (emptyStorage \<lparr> clippedCoupons := Some
       [clippedAt ''1'' ''2026-01-01T00:00:00.000Z'', clippedAt ''2'' ''2026-01-01T00:00:00.001Z'',
        clippedAt ''3'' []] \<rparr>))
     = Some [clippedAt ''2'' ''2026-01-01T00:00:00.001Z'', clippedAt ''3'' []]"
proof -
  let ?cs = "[clippedAt ''1'' ''2026-01-01T00:00:00.000Z'', clippedAt ''2'' ''2026-01-01T00:00:00.001Z'',
        clippedAt ''3'' []]"
  have a: "clippedCoupons (emptyStorage \<lparr> clippedCoupons := Some ?cs \<rparr>) = Some ?cs"
    by simp
  have f: "filter (retained sweepEnv 1775001600000) ?cs
      = [clippedAt ''2'' ''2026-01-01T00:00:00.001Z'', clippedAt ''3'' []]"
    by code_simp
  from retention_sweep [where st = "emptyStorage \<lparr> clippedCoupons := Some ?cs \<rparr>" and cs = ?cs
      and env = sweepEnv and now = 1775001600000] a
  have "clippedCoupons (onStartup sweepEnv 1775001600000 (emptyStorage \<lparr> clippedCoupons := Some ?cs \<rparr>))
      = Some (filter (retained sweepEnv 1775001600000) ?cs)"
    by blast
  moreover have n: "clippedCoupons emptyStorage = None"
    by (simp add: emptyStorage_def)
  moreover from retention_sweep [where st = emptyStorage and env = sweepEnv and now = 1775001600000] n
  have "clippedCoupons (onStartup sweepEnv 1775001600000 emptyStorage) = None"
    by blast
  ultimately show ?thesis using a f by simp
qed

text \<open>
  Claim C8 as stated fails: the sweep also removes a record that is exactly 90 days old,
  which is not older than the retention window, and a record whose \<open>clippedDate\<close> is no
  valid date.
\<close>

theorem sweep_removes_boundary_and_unreadable_dates:
  "clippedCoupons (onStartup sweepEnv 1775001600000 (emptyStorage \<lparr> clippedCoupons := Some
       [clippedAt ''1'' ''2026-01-01T00:00:00.000Z'', clippedAt ''2'' ''recently''] \<rparr>))
     = Some []
   \<and> dateParse sweepEnv ''2026-01-01T00:00:00.000Z'' = Some (1775001600000 - 90 * 24 * 60 * 60 * 1000)
   \<and> dateParse sweepEnv ''recently'' = None"
  by code_simp

lemma keepRecent_drop: "keepRecent xs = drop (length xs - MAX_SESSIONS) xs"
  by (simp add: keepRecent_def)

lemma historyBounded_save: "historyBounded (storage (saveClippingSession env now s w))"
  by (simp add: historyBounded_def saveClippingSession_def Let_def keepRecent_drop)

lemma sessions_handleStop:
  "historyBounded (storage w) \<Longrightarrow> historyBounded (storage (handleStopClipping env now fs w))"
  using historyBounded_save [of env now _ "w \<lparr> clippingState := (clippingState w) \<lparr> isActive := False, lastActivity := Some now \<rparr> \<rparr>"]
  by (auto simp: handleStopClipping_def Let_def historyBounded_def split: option.splits)

lemma sessions_updateStoredCoupons [simp]:
  "clippingSessions (updateStoredCoupons isoNow nc ns st) = clippingSessions st"
  by (simp add: updateStoredCoupons_def)

lemma sessions_processBatch [simp]:
  "clippingSessions (storage (processBatch env offers i w)) = clippingSessions (storage w)"
  by (simp add: processBatch_storage Let_def)

lemma sessions_deliverStop:
  "historyBounded (storage w) \<Longrightarrow> historyBounded (storage (deliverStop env i w))"
  by (simp add: deliverStop_def sessions_handleStop split: option.splits)

lemma sessions_batchLoop:
  "historyBounded (storage w) \<Longrightarrow> historyBounded (storage (batchLoop env offers i w))"
proof (induction env offers i w rule: batchLoop.induct)
  case (1 env offers i w)
  show ?case
  proof (cases "i < length offers \<and> isActive (clippingState w)")
    case True
    have "historyBounded (storage (processBatch env offers i w))"
      using "1.prems" by (simp add: historyBounded_def)
    then have "historyBounded (storage (deliverStop env i (processBatch env offers i w)))"
      by (rule sessions_deliverStop)
    with "1.IH" True show ?thesis by (simp add: batchLoop_step)
  next
    case False
    with "1.prems" show ?thesis by (simp add: batchLoop_stop)
  qed
qed

lemma sessions_processOffers:
  "historyBounded (storage w) \<Longrightarrow> historyBounded (storage (processOffersInBackground env offers w))"
proof -
  assume "historyBounded (storage w)"
  then have b: "historyBounded (storage (batchLoop env offers 0 w))" by (rule sessions_batchLoop)
  let ?w1 = "batchLoop env offers 0 w"
  let ?w2 = "?w1 \<lparr> clippingState := (clippingState ?w1) \<lparr> isActive := False \<rparr> \<rparr>"
  have "historyBounded (storage (saveClippingSession env (dateNow env (length offers))
      (currentStats (clippingState ?w2)) ?w2))"
    by (rule historyBounded_save)
  with b show ?thesis
    by (simp add: processOffersInBackground_def Let_def historyBounded_def)
qed

lemma sessions_handleStart:
  "historyBounded (storage w) \<Longrightarrow>
   historyBounded (storage (snd (handleStartBackgroundClipping env now offersField w)))"
proof (cases offersField)
  case None
  assume "historyBounded (storage w)"
  with None show ?thesis by (simp add: handleStartBackgroundClipping_def historyBounded_def)
next
  case (Some offers)
  assume "historyBounded (storage w)"
  then have "historyBounded (storage (startedWorld env now offers w))"
    by (simp add: historyBounded_def startedWorld_def Let_def)
  then have "historyBounded (storage (processOffersInBackground env offers (startedWorld env now offers w)))"
    by (rule sessions_processOffers)
  with Some show ?thesis by (simp add: handleStartBackgroundClipping_def Let_def)
qed

lemma sessions_onStartup:
  "clippingSessions (onStartup env now st) =
     (case clippingSessions st of
        None \<Rightarrow> None
      | Some ss \<Rightarrow> Some (if length ss > MAX_SESSION_HISTORY then drop (length ss - MAX_SESSIONS) ss else ss))"
  by (simp add: onStartup_def sweepSessions_def split: option.splits)


text \<open>
  Claim C9. After a session is appended the stored history is the most recent
  \<open>MAX_SESSIONS = 50\<close> entries of the old history followed by the new session: it never
  holds more than 50 entries, and appending to a history of 50 drops the oldest entry.
  The bound is an invariant of the storage: it holds of the empty storage, and the append,
  a batch, the stop handler, a whole run and the startup sweep keep it. At startup a
  history within the bound, which is every history the program writes, and a history of
  more than \<open>MAX_SESSION_HISTORY\<close> entries are both cut to their most recent 50 entries.
\<close>

theorem session_history_bound:
  "(let new = newSession env now (clippingState w) s;
        before = orEmpty (clippingSessions (storage w));
        after = orEmpty (clippingSessions (storage (saveClippingSession env now s w)))
    in clippingSessions (storage (saveClippingSession env now s w)) = Some after
     \<and> after = drop (length (before @ [new]) - MAX_SESSIONS) (before @ [new])
     \<and> length after \<le> MAX_SESSIONS
     \<and> (length before = MAX_SESSIONS \<longrightarrow> after = tl before @ [new])
     \<and> (length before < MAX_SESSIONS \<longrightarrow> after = before @ [new]))
   \<and> (clippingSessions st = None \<longrightarrow> clippingSessions (onStartup env now st) = None)
   \<and> (clippingSessions st = Some ss \<and> (length ss \<le> MAX_SESSIONS \<or> MAX_SESSION_HISTORY < length ss) \<longrightarrow>
        clippingSessions (onStartup env now st) = Some (drop (length ss - MAX_SESSIONS) ss))
   \<and> (historyBounded st \<longrightarrow> historyBounded (onStartup env now st))
   \<and> historyBounded emptyStorage
   \<and> historyBounded (storage (saveClippingSession env now s w))
   \<and> (historyBounded (storage w) \<longrightarrow>
        historyBounded (storage (processBatch env offers i w))
        \<and> historyBounded (storage (handleStopClipping env now finalStats w))
        \<and> historyBounded (storage (snd (handleStartBackgroundClipping env now offersField w))))
   \<and> MAX_SESSIONS = 50"
proof -
  let ?new = "newSession env now (clippingState w) s"
  let ?before = "orEmpty (clippingSessions (storage w))"
  have sv: "clippingSessions (storage (saveClippingSession env now s w))
      = Some (drop (length (?before @ [?new]) - MAX_SESSIONS) (?before @ [?new]))"
    by (simp add: saveClippingSession_def Let_def keepRecent_drop)
  have full: "drop (length (?before @ [?new]) - MAX_SESSIONS) (?before @ [?new]) = tl ?before @ [?new]"
    if "length ?before = MAX_SESSIONS"
    using that by (cases ?before) (simp_all add: MAX_SESSIONS_def)
  have st1: "clippingSessions (onStartup env now st) = None" if "clippingSessions st = None"
    using that by (simp add: sessions_onStartup)
  have st2: "clippingSessions (onStartup env now st) = Some (drop (length ss - MAX_SESSIONS) ss)"
    if "clippingSessions st = Some ss \<and> (length ss \<le> MAX_SESSIONS \<or> MAX_SESSION_HISTORY < length ss)"
    using that by (auto simp: sessions_onStartup)
  have st3: "historyBounded (onStartup env now st)" if "historyBounded st"
    using that by (auto simp: historyBounded_def sessions_onStartup split: option.splits)
  have e: "historyBounded emptyStorage"
    by (simp add: historyBounded_def emptyStorage_def)
  have pb: "historyBounded (storage (processBatch env offers i w))" if "historyBounded (storage w)"
    using that by (simp add: historyBounded_def)
  show ?thesis
    unfolding Let_def
    using full st1 st2 st3 e pb historyBounded_save [of env now s w]
      sessions_handleStop [of w env now finalStats] sessions_handleStart [of w env now offersField]
    by (simp add: sv MAX_SESSIONS_def)
qed


text \<open>
  The theorem of claim C9 at a history of 50 sessions that gets one more, at an empty
  history that gets one, at a startup with 50 and with 101 stored sessions, and at a
  run started on a storage with 50 sessions.
\<close>

theorem session_history_bound_witness:
  "length (orEmpty (clippingSessions (storedSessions 50))) = MAX_SESSIONS
   \<and> orEmpty (clippingSessions (storage (saveClippingSession sweepEnv 2000 (stats someSession)
         \<lparr> clippingState = initialState, storage = storedSessions 50 \<rparr>)))
      = replicate 49 someSession @ [newSession sweepEnv 2000 initialState (stats someSession)]
   \<and> orEmpty (clippingSessions (storage (saveClippingSession sweepEnv 2000 (stats someSession) initialWorld)))
      = [newSession sweepEnv 2000 initialState (stats someSession)]
   \<and> historyBounded (storedSessions 50)
   \<and> clippingSessions (onStartup sweepEnv 2000 (storedSessions 50)) = Some (replicate 50 someSession)
   \<and> historyBounded (onStartup sweepEnv 2000 (storedSessions 50))
   \<and> clippingSessions (onStartup sweepEnv 2000 (storedSessions 101)) = Some (replicate 50 someSession)
   \<and> clippingSessions (onStartup sweepEnv 2000 emptyStorage) = None
   \<and> historyBounded (storage (snd (handleStartBackgroundClipping sweepEnv 2000 (Some sevenOffers)
         \<lparr> clippingState = initialState, storage = storedSessions 50 \<rparr>)))"
proof -
  let ?w50 = "\<lparr> clippingState = initialState, storage = storedSessions 50 \<rparr>"
  have l: "length (orEmpty (clippingSessions (storedSessions 50))) = MAX_SESSIONS"
    by (simp add: storedSessions_def MAX_SESSIONS_def)
  have c: "clippingSessions (storedSessions 101) = Some (replicate 101 someSession)
      \<and> (length (replicate 101 someSession) \<le> MAX_SESSIONS \<or> MAX_SESSION_HISTORY < length (replicate 101 someSession))"
    by (simp add: storedSessions_def MAX_SESSION_HISTORY_def)
  have c50: "clippingSessions (storedSessions 50) = Some (replicate 50 someSession)
      \<and> (length (replicate 50 someSession) \<le> MAX_SESSIONS \<or> MAX_SESSION_HISTORY < length (replicate 50 someSession))"
    by (simp add: storedSessions_def MAX_SESSIONS_def)
  have hb: "historyBounded (storedSessions 50)"
    by (simp add: historyBounded_def storedSessions_def MAX_SESSIONS_def)
  have hb': "historyBounded (storage ?w50)" using hb by simp
  note h = session_history_bound [where w = ?w50
      and env = sweepEnv and now = 2000 and s = "stats someSession" and st = "storedSessions 101"
      and ss = "replicate 101 someSession" and offersField = "Some sevenOffers", unfolded Let_def]
  note h50 = session_history_bound [where env = sweepEnv and now = 2000 and st = "storedSessions 50"
      and ss = "replicate 50 someSession", unfolded Let_def]
  note k = session_history_bound [where w = initialWorld
      and env = sweepEnv and now = 2000 and s = "stats someSession" and st = emptyStorage, unfolded Let_def]
  have l': "length (orEmpty (clippingSessions (storage ?w50))) = MAX_SESSIONS"
    by (simp add: storedSessions_def MAX_SESSIONS_def)
  have e: "length (orEmpty (clippingSessions (storage initialWorld))) < MAX_SESSIONS"
    by (simp add: initialWorld_def emptyStorage_def MAX_SESSIONS_def)
  have n: "clippingSessions emptyStorage = None"
    by (simp add: emptyStorage_def)
  from h l' have 1: "orEmpty (clippingSessions (storage (saveClippingSession sweepEnv 2000 (stats someSession) ?w50)))
      = tl (orEmpty (clippingSessions (storage ?w50)))
        @ [newSession sweepEnv 2000 (clippingState ?w50) (stats someSession)]"
    by blast
  from h c have 2: "clippingSessions (onStartup sweepEnv 2000 (storedSessions 101))
      = Some (drop (length (replicate 101 someSession) - MAX_SESSIONS) (replicate 101 someSession))"
    by blast
  from k e have 3: "orEmpty (clippingSessions (storage (saveClippingSession sweepEnv 2000 (stats someSession) initialWorld)))
      = orEmpty (clippingSessions (storage initialWorld))
        @ [newSession sweepEnv 2000 (clippingState initialWorld) (stats someSession)]"
    by blast
  from k n have 4: "clippingSessions (onStartup sweepEnv 2000 emptyStorage) = None"
    by blast
  from h50 c50 have 5: "clippingSessions (onStartup sweepEnv 2000 (storedSessions 50))
      = Some (drop (length (replicate 50 someSession) - MAX_SESSIONS) (replicate 50 someSession))"
    by blast
  from h50 hb have 6: "historyBounded (onStartup sweepEnv 2000 (storedSessions 50))"
    by blast
  from h hb' have 7: "historyBounded (storage (snd (handleStartBackgroundClipping sweepEnv 2000 (Some sevenOffers) ?w50)))"
    by blast
  from l 1 2 3 4 5 hb 6 7 show ?thesis
    by (simp add: storedSessions_def initialWorld_def emptyStorage_def MAX_SESSIONS_def MAX_SESSION_HISTORY_def)
qed

end
